theory Spec2Isabelle
  imports Complex_Main "HOL-Library.Word" "HOL-Library.Product_Lexorder"
begin

unbundle bit_operations_syntax

chapter \<open>The HNSW wrapper of sercha-cli (src/cgo/hnsw/hnsw_wrapper.cpp)\<close>

text \<open>
  Modelling conventions.
  \<^item> \<open>uint32_t\<close> and \<open>uint16_t\<close> are \<open>32 word\<close> and \<open>16 word\<close>; the two half-precision
    conversions work on the bit pattern of a float (the source obtains it with
    \<open>memcpy\<close>), so they are modelled bit for bit.
  \<^item> The quantisation functions compute in binary32 and are modelled in binary32
    arithmetic (type \<open>f32\<close>): every operation rounds its exact result to the nearest
    float, with infinities and NaN.
  \<^item> The vectors handed to hnswlib, their normalisation and the similarity of a search
    result are modelled by their values as \<open>real\<close>, and that arithmetic is exact.
  \<^item> \<open>size_t\<close> and \<open>hnswlib::labeltype\<close> are 64-bit unsigned; they are \<open>nat\<close> with the
    wrap-around written out (\<open>u64\<close>).
  \<^item> The library hnswlib is not part of the repository.  Its operations are a
    parameter of the model (a record of functions over an abstract state \<open>'h\<close>); an
    operation that throws returns \<open>Threw\<close> or \<open>None\<close>.
  \<^item> A pointer argument that may be null is an \<open>option\<close>.
  \<^item> The mutex is not modelled: every operation runs alone on its index.
\<close>

section \<open>Float16 conversion\<close>

text \<open>\<open>float_to_half\<close>, lines 28 to 63.  The argument is the bit pattern \<open>x\<close> of the float.\<close>

definition float_to_half :: "32 word \<Rightarrow> 16 word" where
  "float_to_half x =
    (let sign = drop_bit 31 x AND 1;
         exponent = sint ((drop_bit 23 x AND 0xFF) - 127);
         mantissa = x AND 0x7FFFFF
     in if exponent = 128 then
          (if mantissa = 0 then ucast (push_bit 15 sign OR 0x7C00)
           else ucast (push_bit 15 sign OR 0x7E00))
        else if exponent < - 24 then ucast (push_bit 15 sign)
        else if exponent < - 14 then
          (let mantissa1 = mantissa OR 0x800000;
               shift = nat (- 14 - exponent);
               mantissa2 = drop_bit shift mantissa1
           in ucast (push_bit 15 sign OR drop_bit 13 mantissa2))
        else if exponent > 15 then ucast (push_bit 15 sign OR 0x7C00)
        else
          (let h_exp = (word_of_int (exponent + 15) :: 16 word);
               h_mantissa = (ucast (drop_bit 13 mantissa) :: 16 word)
           in ucast (push_bit 15 sign OR push_bit 10 (ucast h_exp) OR ucast h_mantissa)))"

text \<open>
  The loop of \<open>half_to_float\<close> (lines 79 to 82) shifts the mantissa left until bit 10 is
  set.  It does not end on mantissa 0, so it is a partial function; not returning is
  \<open>None\<close>.
\<close>

partial_function (option) half_normalize ::
  "32 word \<Rightarrow> 32 word \<Rightarrow> (32 word \<times> 32 word) option" where
  "half_normalize mantissa exponent =
     (if mantissa AND 0x400 = 0 then half_normalize (push_bit 1 mantissa) (exponent - 1)
      else Some (mantissa, exponent))"

text \<open>\<open>half_to_float\<close>, lines 66 to 95.  The result is the bit pattern of the float.\<close>

definition half_to_float :: "16 word \<Rightarrow> 32 word option" where
  "half_to_float h =
    (let sign = (ucast (drop_bit 15 h) AND 1 :: 32 word);
         exponent = (ucast (drop_bit 10 h) AND 0x1F :: 32 word);
         mantissa = (ucast h AND 0x3FF :: 32 word)
     in if exponent = 0 then
          (if mantissa = 0 then Some (push_bit 31 sign)
           else case half_normalize mantissa 1 of
                  None \<Rightarrow> None
                | Some (mantissa1, exponent1) \<Rightarrow>
                    Some (push_bit 31 sign OR push_bit 23 (exponent1 + 127 - 15)
                          OR push_bit 13 (mantissa1 AND 0x3FF)))
        else if exponent = 31 then Some (push_bit 31 sign OR 0x7F800000 OR push_bit 13 mantissa)
        else Some (push_bit 31 sign OR push_bit 23 (exponent + 127 - 15) OR push_bit 13 mantissa))"

text \<open>
  The value of a binary32 bit pattern (IEEE 754): sign, biased exponent \<open>e\<close> and
  mantissa \<open>m\<close> give \<open>m / 2^149\<close> for \<open>e = 0\<close> and \<open>(2^23 + m) * 2^(e - 150)\<close> otherwise.
  Patterns with \<open>e = 255\<close> (infinity, NaN) have no real value; the formula is not
  meant for them.
\<close>

definition float_val :: "32 word \<Rightarrow> real" where
  "float_val x =
    (let e = unat (drop_bit 23 x AND 0xFF);
         m = unat (x AND 0x7FFFFF);
         mag = (if e = 0 then real m / 2 ^ 149 else real (2 ^ 23 + m) * 2 ^ e / 2 ^ 150)
     in if bit x 31 then - mag else mag)"

text \<open>
  One unit in the last place of binary16 at the magnitude of the float \<open>x\<close>: \<open>2^-24\<close>
  in the subnormal range of binary16 (biased binary32 exponent up to 112), and
  \<open>2^(e - 127 - 10)\<close> in the binade of exponent \<open>e - 127\<close>.
\<close>

definition half_ulp :: "32 word \<Rightarrow> real" where
  "half_ulp x =
    (let e = unat (drop_bit 23 x AND 0xFF)
     in if e \<le> 112 then 1 / 2 ^ 24 else 2 ^ e / 2 ^ 137)"

section \<open>Int8 symmetric quantisation\<close>

text \<open>
  The two quantisation functions compute in binary32 (IEEE 754 single precision), and
  the model computes as they do: each operation is rounded to binary32 on its own
  (\<open>FLT_EVAL_METHOD\<close> 0, the case on x86-64 and ARM64), in the default rounding mode.  A
  float is given by what it denotes: a finite value, an infinity with its sign (\<open>True\<close>
  for the negative one), or NaN.  The payload of a NaN and the sign of a zero are not
  represented; neither reaches a code or the scale (the scale is a quotient of positive
  values, a code is an integer).
\<close>

datatype f32 = Fin real | Infty bool | NaN

text \<open>Rounding to the nearest integer, a tie going to the even one.\<close>

definition rne :: "real \<Rightarrow> int" where
  "rne x = (let f = \<lfloor>x\<rfloor>; r = x - of_int f
            in if r < 1 / 2 then f else if 1 / 2 < r then f + 1
               else if even f then f else f + 1)"

text \<open>
  The exponent of the binade of a magnitude \<open>a\<close>: the \<open>e\<close> with \<open>2^e \<le> a < 2^(e+1)\<close>, kept
  between -126 (subnormal range) and 127.  It is found by counting up from -126.
\<close>

fun f32_exponent_from :: "nat \<Rightarrow> int \<Rightarrow> real \<Rightarrow> int" where
  "f32_exponent_from 0 e a = e"
| "f32_exponent_from (Suc n) e a =
     (if a < 2 powi (e + 1) then e else f32_exponent_from n (e + 1) a)"

definition f32_exponent :: "real \<Rightarrow> int" where
  "f32_exponent a = f32_exponent_from 253 (- 126) a"

text \<open>
  The spacing of the binary32 values around \<open>x\<close> (24 significant bits), and the multiple
  of that spacing nearest to \<open>x\<close>, a tie going to the even multiple.
\<close>

definition f32_quantum :: "real \<Rightarrow> real" where
  "f32_quantum x = 2 powi (f32_exponent \<bar>x\<bar> - 23)"

definition f32_near :: "real \<Rightarrow> real" where
  "f32_near x = of_int (rne (x / f32_quantum x)) * f32_quantum x"

text \<open>
  The binary32 result of an operation whose exact result is \<open>x\<close>, in the default rounding
  mode (to nearest, ties to even): the nearest value, or an infinity when that value
  is beyond the largest float.
\<close>

definition f32_round :: "real \<Rightarrow> f32" where
  "f32_round x = (if 2 ^ 128 \<le> \<bar>f32_near x\<bar> then Infty (x < 0) else Fin (f32_near x))"

text \<open>
  Product, quotient, order and absolute value of floats.  Zero times infinity and
  infinity by infinity are NaN, a NaN operand gives NaN, and a comparison with NaN is
  false.  The zero of the model stands for +0 in a division by zero; the source never
  divides by zero (it divides by 127 and by a positive maximum).
\<close>

fun f32_mul :: "f32 \<Rightarrow> f32 \<Rightarrow> f32" where
  "f32_mul (Fin x) (Fin y) = f32_round (x * y)"
| "f32_mul (Fin x) (Infty t) = (if x = 0 then NaN else Infty ((x < 0) \<noteq> t))"
| "f32_mul (Infty s) (Fin y) = (if y = 0 then NaN else Infty (s \<noteq> (y < 0)))"
| "f32_mul (Infty s) (Infty t) = Infty (s \<noteq> t)"
| "f32_mul _ _ = NaN"

fun f32_div :: "f32 \<Rightarrow> f32 \<Rightarrow> f32" where
  "f32_div (Fin x) (Fin y) =
     (if y = 0 then (if x = 0 then NaN else Infty (x < 0)) else f32_round (x / y))"
| "f32_div (Fin x) (Infty t) = Fin 0"
| "f32_div (Infty s) (Fin y) = Infty (s \<noteq> (y < 0))"
| "f32_div _ _ = NaN"

fun f32_less :: "f32 \<Rightarrow> f32 \<Rightarrow> bool" where
  "f32_less (Fin x) (Fin y) \<longleftrightarrow> x < y"
| "f32_less (Fin x) (Infty t) \<longleftrightarrow> \<not> t"
| "f32_less (Infty s) (Fin y) \<longleftrightarrow> s"
| "f32_less (Infty s) (Infty t) \<longleftrightarrow> s \<and> \<not> t"
| "f32_less _ _ \<longleftrightarrow> False"

fun f32_abs :: "f32 \<Rightarrow> f32" where
  "f32_abs (Fin x) = Fin \<bar>x\<bar>"
| "f32_abs (Infty s) = Infty False"
| "f32_abs NaN = NaN"

text \<open>
  \<open>std::max (a, b)\<close> is \<open>(a < b) ? b : a\<close> and \<open>std::min (a, b)\<close> is \<open>(b < a) ? b : a\<close>: with
  a NaN as second argument both return the first.
\<close>

definition std_max :: "f32 \<Rightarrow> f32 \<Rightarrow> f32" where
  "std_max a b = (if f32_less a b then b else a)"

definition std_min :: "f32 \<Rightarrow> f32 \<Rightarrow> f32" where
  "std_min a b = (if f32_less b a then b else a)"

text \<open>\<open>std::round\<close>: to the nearest integer, halfway cases away from zero.\<close>

definition c_round :: "real \<Rightarrow> int" where
  "c_round v = (if 0 \<le> v then \<lfloor>v + 1 / 2\<rfloor> else \<lceil>v - 1 / 2\<rceil>)"

text \<open>
  \<open>static_cast<int8_t> (std::round (val))\<close>, line 118.  The operand is the clamped
  value, always a finite float between -127 and 127 (lemma \<open>clamp_finite\<close>), so the
  rounded value is an integer in the range of \<open>int8_t\<close> and the cast is exact; the
  other cases do not occur.
\<close>

fun round_int8 :: "f32 \<Rightarrow> int" where
  "round_int8 (Fin x) = c_round x"
| "round_int8 _ = 0"

text \<open>
  \<open>quantize_vector_int8\<close>, lines 103 to 122.  The array \<open>in\<close> of \<open>dim\<close> floats is a
  list; the codes written to \<open>out\<close> and the returned scale are the result.
\<close>

definition quantize_vector_int8 :: "f32 list \<Rightarrow> int list \<times> f32" where
  "quantize_vector_int8 inp =
    (let max_abs = foldl (\<lambda>acc v. std_max acc (f32_abs v)) (Fin 0) inp;
         scale = (if f32_less (Fin 0) max_abs then f32_div max_abs (Fin 127) else Fin 1);
         inv_scale = (if f32_less (Fin 0) max_abs then f32_div (Fin 127) max_abs else Fin 0)
     in (map (\<lambda>v. round_int8 (std_max (Fin (- 127)) (std_min (Fin 127) (f32_mul v inv_scale))))
           inp, scale))"

text \<open>
  \<open>dequantize_vector_int8\<close>, lines 125 to 129.  The conversion of an \<open>int8_t\<close> to float
  is exact.
\<close>

definition dequantize_vector_int8 :: "int list \<Rightarrow> f32 \<Rightarrow> f32 list" where
  "dequantize_vector_int8 inp scale = map (\<lambda>c. f32_mul (Fin (of_int c)) scale) inp"

section \<open>The ANN primitive and the index structure\<close>

text \<open>
  The result of a call into hnswlib: it returns (\<open>Done\<close>) or throws (\<open>Threw\<close>), in both
  cases leaving a library state behind.
\<close>

datatype 'a outcome = Done 'a | Threw 'a

text \<open>
  The operations of \<open>hnswlib::HierarchicalNSW<float>\<close> the wrapper calls, over an
  abstract library state \<open>'h\<close>: the constructor for an empty index (dimension of the
  space, capacity; M = 16 and ef_construction = 200 are constants of the wrapper), the
  constructor that loads the file \<open>index.bin\<close> (dimension of the space, content of the
  file), the field \<open>max_elements_\<close>, \<open>setEf\<close>, \<open>addPoint\<close>, \<open>markDelete\<close>, \<open>resizeIndex\<close>
  and \<open>searchKnn\<close>, whose result is the content of the returned priority queue.
\<close>

record 'h ann_ops =
  ann_create :: "nat \<Rightarrow> nat \<Rightarrow> 'h option"
  ann_load :: "nat \<Rightarrow> 8 word list \<Rightarrow> 'h option"
  ann_max_elements :: "'h \<Rightarrow> nat"
  ann_setEf :: "nat \<Rightarrow> 'h \<Rightarrow> 'h"
  ann_addPoint :: "real list \<Rightarrow> nat \<Rightarrow> 'h \<Rightarrow> 'h outcome"
  ann_markDelete :: "nat \<Rightarrow> 'h \<Rightarrow> 'h outcome"
  ann_resizeIndex :: "nat \<Rightarrow> 'h \<Rightarrow> 'h outcome"
  ann_searchKnn :: "real list \<Rightarrow> nat \<Rightarrow> 'h \<Rightarrow> (real \<times> nat) list option"

text \<open>
  \<open>struct HnswIndex\<close>, lines 135 to 147.  The field \<open>space\<close> is determined by
  \<open>dimension\<close> and is left out, as is the mutex.  \<open>precision\<close> holds the value of the
  enum as an integer (0 = FLOAT32, 1 = FLOAT16, 2 = INT8), since \<open>load_id_mappings\<close>
  casts whatever \<open>int32\<close> the file holds.
\<close>

record 'h HnswIndex =
  hnsw :: 'h
  id_to_label :: "string \<rightharpoonup> nat"
  label_to_id :: "string list"
  path :: string
  dimension :: int
  max_elements :: nat
  next_label :: nat
  modified :: bool
  precision :: int

definition HNSW_PRECISION_FLOAT32 :: int where "HNSW_PRECISION_FLOAT32 = 0"
definition HNSW_PRECISION_FLOAT16 :: int where "HNSW_PRECISION_FLOAT16 = 1"
definition HNSW_PRECISION_INT8 :: int where "HNSW_PRECISION_INT8 = 2"

text \<open>Arithmetic on \<open>size_t\<close> wraps at \<open>2^64\<close>.\<close>

definition u64 :: "nat \<Rightarrow> nat" where
  "u64 n = n mod 2 ^ 64"

text \<open>\<open>std::vector<std::string>::resize\<close>: new slots hold the empty string.\<close>

definition resize :: "string list \<Rightarrow> nat \<Rightarrow> string list" where
  "resize xs n = take n xs @ replicate (n - length xs) []"

text \<open>A call on \<open>index->hnsw\<close>: the library state of the index is replaced.\<close>

definition on_hnsw :: "('h \<Rightarrow> 'h outcome) \<Rightarrow> 'h HnswIndex \<Rightarrow> 'h HnswIndex outcome" where
  "on_hnsw f idx =
    (case f (hnsw idx) of
       Done h \<Rightarrow> Done (idx\<lparr>hnsw := h\<rparr>)
     | Threw h \<Rightarrow> Threw (idx\<lparr>hnsw := h\<rparr>))"

text \<open>\<open>normalize_vector\<close>, lines 150 to 161.\<close>

definition normalize_vector :: "real list \<Rightarrow> real list" where
  "normalize_vector vec =
    (let norm = sqrt (foldl (\<lambda>acc v. acc + v * v) 0 vec)
     in if norm > 0 then map (\<lambda>v. v / norm) vec else vec)"

section \<open>The operations of the wrapper\<close>

text \<open>
  \<open>hnsw_create\<close>, lines 381 to 416.  Creating the directory has no effect on the
  index and is left out.
\<close>

definition hnsw_create ::
  "'h ann_ops \<Rightarrow> string option \<Rightarrow> int \<Rightarrow> int \<Rightarrow> int \<Rightarrow> 'h HnswIndex option" where
  "hnsw_create ops path_arg dimension_arg max_elements_arg precision_arg =
    (case path_arg of
       None \<Rightarrow> None
     | Some p \<Rightarrow>
        if dimension_arg \<le> 0 \<or> max_elements_arg \<le> 0 then None
        else
          (case ann_create ops (nat dimension_arg) (nat max_elements_arg) of
             None \<Rightarrow> None
           | Some h \<Rightarrow>
               Some \<lparr>hnsw = ann_setEf ops 50 h, id_to_label = Map.empty, label_to_id = [],
                     path = p, dimension = dimension_arg,
                     max_elements = nat max_elements_arg, next_label = 0,
                     modified = False, precision = precision_arg\<rparr>))"

text \<open>
  The body of the \<open>try\<close> block of \<open>hnsw_add\<close>, lines 497 to 533.  A throw leaves the
  index as it was at that point.  When \<open>label + 1\<close> wraps to 0 the source writes
  \<open>label_to_id[label]\<close> out of bounds (undefined behaviour); the list update of the
  model does nothing there.
\<close>

definition hnsw_add_body ::
  "'h ann_ops \<Rightarrow> string \<Rightarrow> real list \<Rightarrow> int \<Rightarrow> 'h HnswIndex \<Rightarrow> 'h HnswIndex outcome" where
  "hnsw_add_body ops ident vec dimension_arg idx =
    (case (case id_to_label idx ident of
             Some old \<Rightarrow> on_hnsw (ann_markDelete ops old) idx
           | None \<Rightarrow> Done idx) of
       Threw i \<Rightarrow> Threw i
     | Done idx1 \<Rightarrow>
        (let label = next_label idx1;
             idx2 = idx1\<lparr>next_label := u64 (label + 1)\<rparr>;
             normalized = normalize_vector (take (nat dimension_arg) vec)
         in case (if label \<ge> max_elements idx2 then
                    (case on_hnsw (ann_resizeIndex ops (u64 (max_elements idx2 * 2))) idx2 of
                       Threw i \<Rightarrow> Threw i
                     | Done i \<Rightarrow> Done (i\<lparr>max_elements := u64 (max_elements i * 2)\<rparr>))
                  else Done idx2) of
              Threw i \<Rightarrow> Threw i
            | Done idx3 \<Rightarrow>
               (case on_hnsw (ann_addPoint ops normalized label) idx3 of
                  Threw i \<Rightarrow> Threw i
                | Done idx4 \<Rightarrow>
                   (let slots = (if label \<ge> length (label_to_id idx4)
                                 then resize (label_to_id idx4) (u64 (label + 1))
                                 else label_to_id idx4)
                    in Done (idx4\<lparr>label_to_id := slots[label := ident],
                                   id_to_label := (id_to_label idx4)(ident \<mapsto> label),
                                   modified := True\<rparr>)))))"

text \<open>
  \<open>hnsw_add\<close>, lines 485 to 537: the return value and the index after the call.
  \<open>vector\<close> points to at least \<open>dimension\<close> floats.
\<close>

definition hnsw_add ::
  "'h ann_ops \<Rightarrow> 'h HnswIndex option \<Rightarrow> string option \<Rightarrow> real list option \<Rightarrow> int
    \<Rightarrow> int \<times> 'h HnswIndex option" where
  "hnsw_add ops index chunk_id vector dimension_arg =
    (case (index, chunk_id, vector) of
       (Some idx, Some ident, Some vec) \<Rightarrow>
         if dimension_arg \<noteq> dimension idx then (- 1, index)
         else (case hnsw_add_body ops ident vec dimension_arg idx of
                 Done i \<Rightarrow> (0, Some i)
               | Threw i \<Rightarrow> (- 1, Some i))
     | _ \<Rightarrow> (- 1, index))"

text \<open>\<open>hnsw_delete\<close>, lines 539 to 571.\<close>

definition hnsw_delete ::
  "'h ann_ops \<Rightarrow> 'h HnswIndex option \<Rightarrow> string option \<Rightarrow> int \<times> 'h HnswIndex option" where
  "hnsw_delete ops index chunk_id =
    (case (index, chunk_id) of
       (Some idx, Some ident) \<Rightarrow>
         (case id_to_label idx ident of
            None \<Rightarrow> (0, index)
          | Some label \<Rightarrow>
             (case on_hnsw (ann_markDelete ops label) idx of
                Threw i \<Rightarrow> (- 1, Some i)
              | Done idx1 \<Rightarrow>
                  (0, Some (idx1\<lparr>id_to_label := (id_to_label idx1)(ident := None),
                                 label_to_id :=
                                   (if label < length (label_to_id idx1)
                                    then (label_to_id idx1)[label := []]
                                    else label_to_id idx1),
                                 modified := True\<rparr>))))
     | _ \<Rightarrow> (- 1, index))"

section \<open>Search and its result buffers\<close>

text \<open>
  The C heap, as far as \<open>hnsw_search\<close> and \<open>hnsw_free_results\<close> use it: a block is a
  C string or an array of results, an address is an index into \<open>blocks\<close>, a freed
  block is \<open>None\<close>.  \<open>malloc\<close> fails (returns the null pointer) once \<open>limit\<close> blocks
  have been handed out.
\<close>

record HnswSearchResult =
  chunk_id :: "nat option"
  similarity :: real

datatype block = CString string | ResultArray "HnswSearchResult list"

record heap =
  blocks :: "block option list"
  limit :: nat

definition malloc :: "block \<Rightarrow> heap \<Rightarrow> nat option \<times> heap" where
  "malloc b h =
    (if length (blocks h) < limit h
     then (Some (length (blocks h)), h\<lparr>blocks := blocks h @ [Some b]\<rparr>)
     else (None, h))"

text \<open>\<open>free\<close>: nothing on the null pointer; \<open>None\<close> is undefined behaviour (not a live block).\<close>

definition free :: "nat option \<Rightarrow> heap \<Rightarrow> heap option" where
  "free p h =
    (case p of
       None \<Rightarrow> Some h
     | Some a \<Rightarrow>
        if a < length (blocks h) \<and> blocks h ! a \<noteq> None
        then Some (h\<lparr>blocks := (blocks h)[a := None]\<rparr>)
        else None)"

text \<open>
  Emptying the priority queue (lines 595 to 603): \<open>top\<close> is the greatest pair
  (distance, label) in the lexicographic order of \<open>std::pair\<close>, \<open>pop\<close> removes it.
\<close>

function pq_drain :: "(real \<times> nat) list \<Rightarrow> (real \<times> nat) list" where
  "pq_drain q =
    (if q = [] then []
     else (let item = Max (set q) in item # pq_drain (remove1 item q)))"
  by pat_completeness auto
termination
proof (relation "measure length")
  show "wf (measure length)" by simp
next
  fix q :: "(real \<times> nat) list" and x
  assume "q \<noteq> []" and "x = Max (set q)"
  then have "x \<in> set q" using Max_in [of "set q"] by simp
  then show "(remove1 x q, q) \<in> measure length"
    by (simp add: length_remove1) (cases q; simp)
qed

declare pq_drain.simps [simp del]

text \<open>The loop that fills the result array, lines 618 to 628, over the items in result order.\<close>

fun fill_results ::
  "string list \<Rightarrow> (real \<times> nat) list \<Rightarrow> heap \<Rightarrow> HnswSearchResult list \<times> heap" where
  "fill_results slots [] h = ([], h)"
| "fill_results slots (item # items) h =
    (let (p, h1) = malloc (CString (slots ! snd item)) h;
         (rs, h2) = fill_results slots items h1
     in (\<lparr>chunk_id = p, similarity = 1 - fst item\<rparr> # rs, h2))"

text \<open>What the call leaves in \<open>*results\<close>.\<close>

datatype out_ptr = Unwritten | Written "nat option"

text \<open>
  \<open>hnsw_search\<close>, lines 573 to 634: the return value, \<open>*results\<close> and the heap.
  \<open>results_null\<close> says whether the pointer \<open>results\<close> is the null pointer.  \<open>searchKnn\<close> returns
  at most \<open>k\<close> items, so the cast of the count to \<open>int\<close> is exact.
\<close>

definition hnsw_search ::
  "'h ann_ops \<Rightarrow> heap \<Rightarrow> 'h HnswIndex option \<Rightarrow> real list option \<Rightarrow> int \<Rightarrow> int \<Rightarrow> bool
    \<Rightarrow> int \<times> out_ptr \<times> heap" where
  "hnsw_search ops h index query dimension_arg k results_null =
    (case (index, query) of
       (Some idx, Some q) \<Rightarrow>
         if results_null \<or> k \<le> 0 then (- 1, Unwritten, h)
         else if dimension_arg \<noteq> dimension idx then (- 1, Unwritten, h)
         else
           (let normalized = normalize_vector (take (nat dimension_arg) q)
            in case ann_searchKnn ops normalized (nat k) (hnsw idx) of
                 None \<Rightarrow> (- 1, Unwritten, h)
               | Some result \<Rightarrow>
                  (let valid_results =
                         filter (\<lambda>item. snd item < length (label_to_id idx)
                                        \<and> label_to_id idx ! snd item \<noteq> [])
                                (pq_drain result)
                   in if valid_results = [] then (0, Written None, h)
                      else
                        (let count = int (length valid_results)
                         in case malloc (ResultArray []) h of
                              (None, h1) \<Rightarrow> (- 1, Written None, h1)
                            | (Some a, h1) \<Rightarrow>
                               (let (rs, h2) = fill_results (label_to_id idx) (rev valid_results) h1
                                in (count, Written (Some a),
                                    h2\<lparr>blocks := (blocks h2)[a := Some (ResultArray rs)]\<rparr>)))))
     | _ \<Rightarrow> (- 1, Unwritten, h))"

text \<open>
  \<open>hnsw_free_results\<close>, lines 636 to 643.  \<open>None\<close> is undefined behaviour: \<open>results\<close> is
  not a live result array of at least \<open>count\<close> entries, or an entry's string is not
  live.
\<close>

fun free_chunk_ids :: "HnswSearchResult list \<Rightarrow> heap \<Rightarrow> heap option" where
  "free_chunk_ids [] h = Some h"
| "free_chunk_ids (r # rs) h =
    (case free (chunk_id r) h of None \<Rightarrow> None | Some h1 \<Rightarrow> free_chunk_ids rs h1)"

definition hnsw_free_results :: "heap \<Rightarrow> nat option \<Rightarrow> int \<Rightarrow> heap option" where
  "hnsw_free_results h results count =
    (case results of
       None \<Rightarrow> Some h
     | Some a \<Rightarrow>
        if a < length (blocks h) then
          (case blocks h ! a of
             Some (ResultArray rs) \<Rightarrow>
               if nat count \<le> length rs then
                 (case free_chunk_ids (take (nat count) rs) h of
                    None \<Rightarrow> None
                  | Some h1 \<Rightarrow> free (Some a) h1)
               else None
           | _ \<Rightarrow> None)
        else None)"

section \<open>Opening a stored index\<close>

text \<open>
  The storage directory is a map from file names to file contents.  An input stream is
  the list of bytes not yet read; a read of \<open>n\<close> bytes fails when fewer are left.  In
  the source a failed read sets the stream's fail bit, the following reads do nothing
  and the final \<open>in.good()\<close> is false (or a size read as garbage makes an allocation
  throw): either way the load fails and \<open>hnsw_open\<close> returns the null pointer.  The
  model returns \<open>None\<close> at the first failed read.  Integers in the files are
  little-endian, \<open>size_t\<close> has 8 bytes.
\<close>

type_synonym bytes = "8 word list"

definition read_bytes :: "nat \<Rightarrow> bytes \<Rightarrow> (bytes \<times> bytes) option" where
  "read_bytes n s = (if n \<le> length s then Some (take n s, drop n s) else None)"

fun le_nat :: "bytes \<Rightarrow> nat" where
  "le_nat [] = 0"
| "le_nat (b # bs) = unat b + 256 * le_nat bs"

definition read_u32 :: "bytes \<Rightarrow> (nat \<times> bytes) option" where
  "read_u32 s = (case read_bytes 4 s of None \<Rightarrow> None | Some (b, r) \<Rightarrow> Some (le_nat b, r))"

definition read_u64 :: "bytes \<Rightarrow> (nat \<times> bytes) option" where
  "read_u64 s = (case read_bytes 8 s of None \<Rightarrow> None | Some (b, r) \<Rightarrow> Some (le_nat b, r))"

text \<open>An \<open>int32_t\<close>, and the cast of a \<open>uint32_t\<close> to \<open>int\<close>: two's complement.\<close>

definition int32_of_nat :: "nat \<Rightarrow> int" where
  "int32_of_nat n = sint (word_of_nat n :: 32 word)"

text \<open>
  The loop of \<open>load_id_mappings\<close>, lines 359 to 374, over the \<open>count\<close> entries: label,
  length and bytes of the identifier.  An entry whose label is not below the number of
  slots is skipped; an empty identifier gets no entry in \<open>id_to_label\<close>.
\<close>

fun read_mappings ::
  "nat \<Rightarrow> bytes \<Rightarrow> string list \<Rightarrow> (string \<rightharpoonup> nat)
    \<Rightarrow> (string list \<times> (string \<rightharpoonup> nat) \<times> bytes) option" where
  "read_mappings 0 s slots labels = Some (slots, labels, s)"
| "read_mappings (Suc n) s slots labels =
    (case read_u64 s of
       None \<Rightarrow> None
     | Some (label, s1) \<Rightarrow>
        (case read_u64 s1 of
           None \<Rightarrow> None
         | Some (len, s2) \<Rightarrow>
            (case read_bytes len s2 of
               None \<Rightarrow> None
             | Some (id_bytes, s3) \<Rightarrow>
                (let ident = map (\<lambda>b. char_of (unat b)) id_bytes
                 in if label < length slots
                    then read_mappings n s3 (slots[label := ident])
                           (if ident \<noteq> [] then labels(ident \<mapsto> label) else labels)
                    else read_mappings n s3 slots labels))))"

text \<open>
  \<open>load_id_mappings\<close>, lines 337 to 377, on the content of \<open>id_mapping.bin\<close>: what it
  stores in the fields \<open>precision\<close>, \<open>next_label\<close>, \<open>label_to_id\<close> and \<open>id_to_label\<close> of
  the fresh index.  \<open>None\<close> is the result \<open>false\<close>.
\<close>

record id_mappings =
  m_precision :: int
  m_next_label :: nat
  m_label_to_id :: "string list"
  m_id_to_label :: "string \<rightharpoonup> nat"

definition load_id_mappings :: "bytes \<Rightarrow> id_mappings option" where
  "load_id_mappings s =
    (case read_u32 s of
       None \<Rightarrow> None
     | Some (prec, s1) \<Rightarrow>
        (case read_u64 s1 of
           None \<Rightarrow> None
         | Some (count, s2) \<Rightarrow>
            (case read_u64 s2 of
               None \<Rightarrow> None
             | Some (next, s3) \<Rightarrow>
                (case read_mappings count s3 (replicate count []) Map.empty of
                   None \<Rightarrow> None
                 | Some (slots, labels, s4) \<Rightarrow>
                     Some \<lparr>m_precision = int32_of_nat prec, m_next_label = next,
                           m_label_to_id = slots, m_id_to_label = labels\<rparr>))))"

text \<open>
  The float that a binary32 bit pattern denotes, and the real number under which a
  float is handed to the primitive, whose vectors are lists of reals: a finite float is
  handed over as its value, an infinity as \<open>2^128\<close> with its sign and a NaN as \<open>3 * 2^127\<close>,
  which is what \<open>float_val\<close> gives for the patterns \<open>0x7F800000\<close> and \<open>0x7FC00000\<close>; every
  finite float lies strictly between.
\<close>

definition f32_of_bits :: "32 word \<Rightarrow> f32" where
  "f32_of_bits x =
    (if drop_bit 23 x AND 0xFF = 0xFF
     then (if x AND 0x7FFFFF = 0 then Infty (bit x 31) else NaN)
     else Fin (float_val x))"

fun f32_val :: "f32 \<Rightarrow> real" where
  "f32_val (Fin x) = x"
| "f32_val (Infty s) = (if s then - (2 ^ 128) else 2 ^ 128)"
| "f32_val NaN = 3 * 2 ^ 127"

text \<open>
  One record of the compressed vector file, lines 308 to 321: \<open>dim\<close> half codes, or a
  float scale and \<open>dim\<close> signed bytes.  The decoded floats are given by their values.
\<close>

fun half_codes :: "bytes \<Rightarrow> 16 word list" where
  "half_codes (lo # hi # bs) = (ucast lo OR push_bit 8 (ucast hi)) # half_codes bs"
| "half_codes bs = []"

fun decode_halves :: "16 word list \<Rightarrow> real list option" where
  "decode_halves [] = Some []"
| "decode_halves (c # cs) =
    (case half_to_float c of
       None \<Rightarrow> None
     | Some f \<Rightarrow> (case decode_halves cs of None \<Rightarrow> None | Some fs \<Rightarrow> Some (float_val f # fs)))"

definition read_vector :: "int \<Rightarrow> nat \<Rightarrow> bytes \<Rightarrow> (real list \<times> bytes) option" where
  "read_vector prec dimn s =
    (if prec = HNSW_PRECISION_FLOAT16 then
       (case read_bytes (dimn * 2) s of
          None \<Rightarrow> None
        | Some (compressed, s1) \<Rightarrow>
           (case decode_halves (half_codes compressed) of
              None \<Rightarrow> None
            | Some vec \<Rightarrow> Some (vec, s1)))
     else
       (case read_bytes 4 s of
          None \<Rightarrow> None
        | Some (scale_bytes, s1) \<Rightarrow>
           (case read_bytes dimn s1 of
              None \<Rightarrow> None
            | Some (compressed, s2) \<Rightarrow>
                Some (map f32_val
                        (dequantize_vector_int8 (map sint compressed)
                           (f32_of_bits (word_of_nat (le_nat scale_bytes)))), s2))))"

text \<open>
  The loop of \<open>load_compressed_vectors\<close>, lines 305 to 331, from \<open>label\<close> on over the
  remaining \<open>n\<close> records.  A record is inserted only under a label whose slot holds an
  identifier; a throw of \<open>addPoint\<close> is caught and ignored.
\<close>

fun replay_vectors ::
  "'h ann_ops \<Rightarrow> int \<Rightarrow> nat \<Rightarrow> string list \<Rightarrow> nat \<Rightarrow> nat \<Rightarrow> bytes \<Rightarrow> 'h \<Rightarrow> 'h option" where
  "replay_vectors ops prec dimn slots 0 label s h = Some h"
| "replay_vectors ops prec dimn slots (Suc n) label s h =
    (case read_vector prec dimn s of
       None \<Rightarrow> None
     | Some (vec, s1) \<Rightarrow>
        replay_vectors ops prec dimn slots n (Suc label) s1
          (if label < length slots \<and> slots ! label \<noteq> []
           then (case ann_addPoint ops vec label h of Done h1 \<Rightarrow> h1 | Threw h1 \<Rightarrow> h1)
           else h))"

text \<open>
  \<open>load_compressed_vectors\<close>, lines 276 to 334: the library state after the replay;
  \<open>None\<close> is the result \<open>false\<close>.
\<close>

definition load_compressed_vectors ::
  "'h ann_ops \<Rightarrow> (string \<rightharpoonup> bytes) \<Rightarrow> string \<Rightarrow> int \<Rightarrow> int \<Rightarrow> string list \<Rightarrow> 'h \<Rightarrow> 'h option" where
  "load_compressed_vectors ops fs p prec dimension_arg slots h =
    (if prec \<noteq> HNSW_PRECISION_FLOAT16 \<and> prec \<noteq> HNSW_PRECISION_INT8 then Some h
     else
       (case fs (p @ (if prec = HNSW_PRECISION_FLOAT16 then ''/vectors.f16'' else ''/vectors.i8'')) of
          None \<Rightarrow> None
        | Some s \<Rightarrow>
           (case read_u32 s of
              None \<Rightarrow> None
            | Some (num_vectors, s1) \<Rightarrow>
               (case read_u32 s1 of
                  None \<Rightarrow> None
                | Some (dimensions, s2) \<Rightarrow>
                    if int32_of_nat dimensions \<noteq> dimension_arg then None
                    else replay_vectors ops prec (nat dimension_arg) slots num_vectors 0 s2 h))))"

text \<open>\<open>hnsw_open\<close>, lines 418 to 483; \<open>None\<close> is the null pointer.\<close>

definition hnsw_open ::
  "'h ann_ops \<Rightarrow> (string \<rightharpoonup> bytes) \<Rightarrow> string option \<Rightarrow> int \<Rightarrow> 'h HnswIndex option" where
  "hnsw_open ops fs path_arg dimension_arg =
    (case path_arg of
       None \<Rightarrow> None
     | Some p \<Rightarrow>
        if dimension_arg \<le> 0 then None
        else
          (case fs (p @ ''/id_mapping.bin'') of
             None \<Rightarrow> None
           | Some mapping \<Rightarrow>
              (case load_id_mappings mapping of
                 None \<Rightarrow> None
               | Some m \<Rightarrow>
                  if m_precision m = HNSW_PRECISION_FLOAT32 then
                    (case fs (p @ ''/index.bin'') of
                       None \<Rightarrow> None
                     | Some graph \<Rightarrow>
                        (case ann_load ops (nat dimension_arg) graph of
                           None \<Rightarrow> None
                         | Some h \<Rightarrow>
                             Some \<lparr>hnsw = ann_setEf ops 50 h,
                                   id_to_label = m_id_to_label m,
                                   label_to_id = m_label_to_id m,
                                   path = p, dimension = dimension_arg,
                                   max_elements = ann_max_elements ops h,
                                   next_label = m_next_label m,
                                   modified = False, precision = m_precision m\<rparr>))
                  else
                    (let max_elements_new =
                           (if length (m_label_to_id m) = 0 then 100000
                            else length (m_label_to_id m))
                     in case ann_create ops (nat dimension_arg) max_elements_new of
                          None \<Rightarrow> None
                        | Some h0 \<Rightarrow>
                           (case load_compressed_vectors ops fs p (m_precision m) dimension_arg
                                   (m_label_to_id m) h0 of
                              None \<Rightarrow> None
                            | Some h \<Rightarrow>
                                Some \<lparr>hnsw = ann_setEf ops 50 h,
                                      id_to_label = m_id_to_label m,
                                      label_to_id = m_label_to_id m,
                                      path = p, dimension = dimension_arg,
                                      max_elements = max_elements_new,
                                      next_label = m_next_label m,
                                      modified = False, precision = m_precision m\<rparr>)))))"

text \<open>
  The replay as the specification words it (section 4.3): the records of the vector file
  have a fixed stride, so the record of a label starts at label times the record size;
  for each label with a live identifier the stored record is decoded and inserted into
  the primitive under that label, and the records of tombstoned slots are skipped.  A
  failing insertion is ignored.  \<open>replay_spec\<close> is compared with the loop of the source
  in lemma \<open>replay_vectors_spec\<close>.
\<close>

definition record_size :: "int \<Rightarrow> nat \<Rightarrow> nat" where
  "record_size prec dimn = (if prec = HNSW_PRECISION_FLOAT16 then dimn * 2 else 4 + dimn)"

definition stored_record :: "int \<Rightarrow> nat \<Rightarrow> bytes \<Rightarrow> nat \<Rightarrow> real list" where
  "stored_record prec dimn body label =
    (case read_vector prec dimn (drop (label * record_size prec dimn) body) of
       None \<Rightarrow> []
     | Some (vec, rest) \<Rightarrow> vec)"

definition replay_spec ::
  "'h ann_ops \<Rightarrow> int \<Rightarrow> nat \<Rightarrow> string list \<Rightarrow> nat \<Rightarrow> bytes \<Rightarrow> 'h \<Rightarrow> 'h" where
  "replay_spec ops prec dimn slots n body h0 =
    foldl (\<lambda>h label.
             if label < length slots \<and> slots ! label \<noteq> []
             then (case ann_addPoint ops (stored_record prec dimn body label) label h of
                     Done h1 \<Rightarrow> h1 | Threw h1 \<Rightarrow> h1)
             else h)
      h0 [0..<n]"

section \<open>Sequences of calls\<close>

text \<open>
  A call of \<open>hnsw_add\<close> or \<open>hnsw_delete\<close> with its arguments.  \<open>run\<close> performs a
  sequence of calls on one handle and lists, in order, the labels that the successful
  calls of \<open>hnsw_add\<close> assigned: the label found under the identifier after the call.
\<close>

datatype call = Add "string option" "real list option" int | Delete "string option"

definition assigned :: "int \<Rightarrow> 'h HnswIndex option \<Rightarrow> string option \<Rightarrow> nat list" where
  "assigned ret index chunk_id_arg =
    (case (index, chunk_id_arg) of
       (Some idx, Some ident) \<Rightarrow>
         (case id_to_label idx ident of
            Some label \<Rightarrow> if ret = 0 then [label] else []
          | None \<Rightarrow> [])
     | _ \<Rightarrow> [])"

fun run :: "'h ann_ops \<Rightarrow> 'h HnswIndex option \<Rightarrow> call list \<Rightarrow> nat list \<times> 'h HnswIndex option" where
  "run ops index [] = ([], index)"
| "run ops index (Add chunk_id_arg vector dimension_arg # calls) =
    (let (ret, index1) = hnsw_add ops index chunk_id_arg vector dimension_arg;
         (labels, index2) = run ops index1 calls
     in (assigned ret index1 chunk_id_arg @ labels, index2))"
| "run ops index (Delete chunk_id_arg # calls) =
    (let (ret, index1) = hnsw_delete ops index chunk_id_arg
     in run ops index1 calls)"

text \<open>
  The registry of an index is well formed when every slot and every label in use lies
  below the label counter.
\<close>

definition registry_ok :: "'h HnswIndex \<Rightarrow> bool" where
  "registry_ok idx \<longleftrightarrow>
     length (label_to_id idx) \<le> next_label idx \<and>
     (\<forall>ident label. id_to_label idx ident = Some label \<longrightarrow> label < next_label idx)"

section \<open>A reference ANN primitive\<close>

text \<open>
  Modelled from the spec: hnswlib, the ANN primitive, is not in the repository.  The
  spec gives its contract: vectors are stored under integer labels, a label can be
  marked deleted and stays in the structure, the search returns up to \<open>k\<close> nearest
  labels by inner-product distance, and the primitive loads its own persisted form.
  This reference does the search exactly, by brute force; its distance is that of
  hnswlib's \<open>InnerProductSpace\<close>, 1 minus the inner product.  It serves the closed
  examples only: every general theorem below holds for any record of operations.
\<close>

record ref_ann =
  ref_dim :: nat
  ref_capacity :: nat
  ref_points :: "(nat \<times> real list) list"
  ref_deleted :: "nat list"
  ref_ef :: nat

definition inner_product :: "real list \<Rightarrow> real list \<Rightarrow> real" where
  "inner_product a b = sum_list (map2 (*) a b)"

definition ref_create :: "nat \<Rightarrow> nat \<Rightarrow> ref_ann option" where
  "ref_create dimn cap =
     Some \<lparr>ref_dim = dimn, ref_capacity = cap, ref_points = [], ref_deleted = [], ref_ef = 10\<rparr>"

text \<open>
  Of the persisted form of the primitive the spec says only that the primitive loads
  what it has saved; hnswlib's layout is not part of the repository.  So that a closed
  example can open a FLOAT32 index, the reference has a persisted form of its own:
  capacity, number of points, then per point its label and \<open>dim\<close> floats of 4 bytes.  It
  is used for that one example, whose graph holds no point, so that the dimension
  plays no part in loading it.  What a load accepts or rejects decides no statement
  about the wrapper: they hold for any load operation.
\<close>

fun ref_read_points :: "nat \<Rightarrow> nat \<Rightarrow> bytes \<Rightarrow> (nat \<times> real list) list option" where
  "ref_read_points dimn 0 s = Some []"
| "ref_read_points dimn (Suc n) s =
    (case read_u64 s of
       None \<Rightarrow> None
     | Some (label, s1) \<Rightarrow>
        (case read_bytes (dimn * 4) s1 of
           None \<Rightarrow> None
         | Some (data, s2) \<Rightarrow>
            (case ref_read_points dimn n s2 of
               None \<Rightarrow> None
             | Some ps \<Rightarrow>
                 Some ((label, map (\<lambda>i. float_val (word_of_nat (le_nat (take 4 (drop (4 * i) data)))))
                                    [0..<dimn]) # ps))))"

definition ref_load :: "nat \<Rightarrow> bytes \<Rightarrow> ref_ann option" where
  "ref_load dimn s =
    (case read_u64 s of
       None \<Rightarrow> None
     | Some (cap, s1) \<Rightarrow>
        (case read_u64 s1 of
           None \<Rightarrow> None
         | Some (count, s2) \<Rightarrow>
            (case ref_read_points dimn count s2 of
               None \<Rightarrow> None
             | Some ps \<Rightarrow>
                 Some \<lparr>ref_dim = dimn, ref_capacity = cap, ref_points = ps,
                       ref_deleted = [], ref_ef = 10\<rparr>)))"

definition ref_addPoint :: "real list \<Rightarrow> nat \<Rightarrow> ref_ann \<Rightarrow> ref_ann outcome" where
  "ref_addPoint vec label h =
    (if label \<in> fst ` set (ref_points h) then
       Done (h\<lparr>ref_points := map (\<lambda>(l, v). if l = label then (l, vec) else (l, v)) (ref_points h),
               ref_deleted := removeAll label (ref_deleted h)\<rparr>)
     else if length (ref_points h) \<ge> ref_capacity h then Threw h
     else Done (h\<lparr>ref_points := ref_points h @ [(label, vec)]\<rparr>))"

definition ref_markDelete :: "nat \<Rightarrow> ref_ann \<Rightarrow> ref_ann outcome" where
  "ref_markDelete label h =
    (if label \<in> fst ` set (ref_points h) \<and> label \<notin> set (ref_deleted h)
     then Done (h\<lparr>ref_deleted := label # ref_deleted h\<rparr>)
     else Threw h)"

definition ref_resizeIndex :: "nat \<Rightarrow> ref_ann \<Rightarrow> ref_ann outcome" where
  "ref_resizeIndex n h =
    (if n < length (ref_points h) then Threw h else Done (h\<lparr>ref_capacity := n\<rparr>))"

definition ref_searchKnn :: "real list \<Rightarrow> nat \<Rightarrow> ref_ann \<Rightarrow> (real \<times> nat) list option" where
  "ref_searchKnn q k h =
    Some (take k (sort (map (\<lambda>(l, v). (1 - inner_product q v, l))
                         (filter (\<lambda>(l, v). l \<notin> set (ref_deleted h)) (ref_points h)))))"

definition ref_ops :: "ref_ann ann_ops" where
  "ref_ops =
    \<lparr>ann_create = ref_create, ann_load = ref_load, ann_max_elements = ref_capacity,
     ann_setEf = (\<lambda>ef h. h\<lparr>ref_ef := ef\<rparr>), ann_addPoint = ref_addPoint,
     ann_markDelete = ref_markDelete, ann_resizeIndex = ref_resizeIndex,
     ann_searchKnn = ref_searchKnn\<rparr>"

section \<open>Stored indexes used as examples\<close>

text \<open>
  Storage directories under the path \<open>p\<close>.  \<open>fs_half_one\<close>: FLOAT16, one slot holding the
  identifier \<open>a\<close> (label 0), next label 1, and a vector file of dimension 1 with the half
  code of 1.0.  \<open>fs_half_none\<close>: FLOAT16, no slot, and a vector file of dimension 1
  without records.  \<open>fs_half_tomb\<close>: FLOAT16, two slots, the first one tombstoned and the
  second holding \<open>a\<close>, and a vector file of dimension 1 with a record of zeros and the
  half code of 1.0.  \<open>fs_half_cut\<close>: the same with the last byte of the vector file
  missing.  \<open>fs_quant_one\<close>: INT8, one slot holding \<open>a\<close>, and a vector file of
  dimension 2 with one record, the scale 0.5 and the codes 2 and -2.
  \<open>fs_full_none\<close>: FLOAT32, no slot, and a graph file of the reference
  primitive with capacity 4 and no point.
\<close>

definition fs_half_one :: "string \<rightharpoonup> bytes" where
  "fs_half_one =
    [''p/id_mapping.bin'' \<mapsto>
       [1, 0, 0, 0,  1, 0, 0, 0, 0, 0, 0, 0,  1, 0, 0, 0, 0, 0, 0, 0,
        0, 0, 0, 0, 0, 0, 0, 0,  1, 0, 0, 0, 0, 0, 0, 0,  0x61],
     ''p/vectors.f16'' \<mapsto> [1, 0, 0, 0,  1, 0, 0, 0,  0x00, 0x3C]]"

definition fs_half_none :: "string \<rightharpoonup> bytes" where
  "fs_half_none =
    [''p/id_mapping.bin'' \<mapsto>
       [1, 0, 0, 0,  0, 0, 0, 0, 0, 0, 0, 0,  0, 0, 0, 0, 0, 0, 0, 0],
     ''p/vectors.f16'' \<mapsto> [0, 0, 0, 0,  1, 0, 0, 0]]"

definition fs_full_none :: "string \<rightharpoonup> bytes" where
  "fs_full_none =
    [''p/id_mapping.bin'' \<mapsto>
       [0, 0, 0, 0,  0, 0, 0, 0, 0, 0, 0, 0,  0, 0, 0, 0, 0, 0, 0, 0],
     ''p/index.bin'' \<mapsto> [4, 0, 0, 0, 0, 0, 0, 0,  0, 0, 0, 0, 0, 0, 0, 0]]"

definition fs_half_tomb :: "string \<rightharpoonup> bytes" where
  "fs_half_tomb =
    [''p/id_mapping.bin'' \<mapsto>
       [1, 0, 0, 0,  2, 0, 0, 0, 0, 0, 0, 0,  2, 0, 0, 0, 0, 0, 0, 0,
        0, 0, 0, 0, 0, 0, 0, 0,  0, 0, 0, 0, 0, 0, 0, 0,
        1, 0, 0, 0, 0, 0, 0, 0,  1, 0, 0, 0, 0, 0, 0, 0,  0x61],
     ''p/vectors.f16'' \<mapsto> [2, 0, 0, 0,  1, 0, 0, 0,  0x00, 0x00,  0x00, 0x3C]]"

definition fs_half_cut :: "string \<rightharpoonup> bytes" where
  "fs_half_cut =
    [''p/id_mapping.bin'' \<mapsto>
       [1, 0, 0, 0,  2, 0, 0, 0, 0, 0, 0, 0,  2, 0, 0, 0, 0, 0, 0, 0,
        0, 0, 0, 0, 0, 0, 0, 0,  0, 0, 0, 0, 0, 0, 0, 0,
        1, 0, 0, 0, 0, 0, 0, 0,  1, 0, 0, 0, 0, 0, 0, 0,  0x61],
     ''p/vectors.f16'' \<mapsto> [2, 0, 0, 0,  1, 0, 0, 0,  0x00, 0x00,  0x00]]"

definition fs_quant_one :: "string \<rightharpoonup> bytes" where
  "fs_quant_one =
    [''p/id_mapping.bin'' \<mapsto>
       [2, 0, 0, 0,  1, 0, 0, 0, 0, 0, 0, 0,  1, 0, 0, 0, 0, 0, 0, 0,
        0, 0, 0, 0, 0, 0, 0, 0,  1, 0, 0, 0, 0, 0, 0, 0,  0x61],
     ''p/vectors.i8'' \<mapsto> [1, 0, 0, 0,  2, 0, 0, 0,  0x00, 0x00, 0x00, 0x3F,  0x02, 0xFE]]"

chapter \<open>Properties\<close>

section \<open>Float16 conversion\<close>

text \<open>Masks, the sign bit and the exponent field of a binary32 pattern.\<close>

lemma w32_mask_1: "(1::32 word) = mask 1" by (simp add: mask_eq_exp_minus_1)
lemma w32_mask_8: "(0xFF::32 word) = mask 8" by (simp add: mask_eq_exp_minus_1)
lemma w32_mask_23: "(0x7FFFFF::32 word) = mask 23" by (simp add: mask_eq_exp_minus_1)
lemma w32_mask_5: "(0x1F::32 word) = mask 5" by (simp add: mask_eq_exp_minus_1)
lemma w32_mask_10: "(0x3FF::32 word) = mask 10" by (simp add: mask_eq_exp_minus_1)

lemma sign_bit: "drop_bit 31 (x::32 word) AND 1 = of_bool (bit x 31)"
  by (simp add: and_one_eq mod_2_eq_odd bit_iff_odd_drop_bit)

lemma bit_push_of_bool:
  "bit (push_bit k (of_bool b) :: 32 word) n \<longleftrightarrow> b \<and> n = k \<and> k < 32"
  by (cases b) (auto simp: bit_simps)

lemma fexp_le: "drop_bit 23 (x::32 word) AND 0xFF \<le> 0xFF"
  by (rule word_and_le1)

lemma fexp_lt: "unat (drop_bit 23 (x::32 word) AND 0xFF) < 256"
  using fexp_le [of x] unfolding word_le_nat_alt by simp

lemma fexp_uint: "uint (drop_bit 23 (x::32 word) AND 0xFF) < 256"
  using fexp_le [of x] unfolding word_le_def by simp

lemma exponent_eq:
  "sint ((drop_bit 23 (x::32 word) AND 0xFF) - 127) = uint (drop_bit 23 x AND 0xFF) - 127"
proof -
  define w where "w = drop_bit 23 x AND 0xFF"
  have u: "uint w < 256" unfolding w_def by (rule fexp_uint)
  have u0: "0 \<le> uint w" by simp
  have sw: "sint w = uint w"
    unfolding sint_uint using u u0 by (intro signed_take_bit_int_eq_self; simp; linarith)
  have "sint (w - 127) = signed_take_bit 31 (sint w - sint (127::32 word))"
    by (simp add: sint_word_diff)
  also have "\<dots> = uint w - 127"
    unfolding sw using u u0 by simp (intro signed_take_bit_int_eq_self; simp; linarith)
  finally show ?thesis by (simp add: w_def)
qed

lemma bit10: "(w AND 0x400 = 0) = (\<not> bit (w::32 word) 10)"
  using and_exp_eq_0_iff_not_bit [of w 10] by simp

lemma bit_unat: "bit (w::32 word) n = odd (unat w div 2 ^ n)"
proof -
  have "bit (unat w) n = bit w n" by (simp add: bit_unsigned_iff)
  then show ?thesis using bit_iff_odd [of "unat w" n] by simp
qed

lemma half_normalize_steps:
  "2 ^ p \<le> unat mantissa \<Longrightarrow> unat mantissa < 2 ^ Suc p \<Longrightarrow> p + d = 10 \<Longrightarrow>
   half_normalize mantissa exponent = Some (push_bit d mantissa, exponent - of_nat d)"
proof (induction d arbitrary: p mantissa exponent)
  case 0
  then have "unat mantissa div 2 ^ 10 = 1" by simp
  then have "bit mantissa 10" by (simp add: bit_unat)
  then show ?case by (subst half_normalize.simps) (simp add: bit10)
next
  case (Suc d)
  then have p: "p < 10" by simp
  have "(2::nat) ^ Suc p \<le> 2 ^ 10" using p by (intro power_increasing) simp_all
  with Suc.prems have lt: "unat mantissa < 2 ^ 10" by linarith
  then have "unat mantissa div 2 ^ 10 = 0" by simp
  then have nb: "\<not> bit mantissa 10" by (simp add: bit_unat)
  have um: "unat (push_bit 1 mantissa) = 2 * unat mantissa"
    using lt by (simp add: push_bit_eq_mult unat_word_ariths)
  have um2: "unat (mantissa * 2) = 2 * unat mantissa"
    using lt by (simp add: unat_word_ariths)
  have "half_normalize (push_bit 1 mantissa) (exponent - 1)
        = Some (push_bit d (push_bit 1 mantissa), exponent - 1 - of_nat d)"
    using Suc.prems by (intro Suc.IH [of "Suc p"]) (simp_all add: um um2)
  then show ?case 
    by (subst half_normalize.simps) (simp add: bit10 nb push_bit_eq_mult flip: push_bit_add)
qed

lemma bit_lt32:
  fixes w :: "32 word"
  assumes "w < 2 ^ k" "bit w n"
  shows "n < k"
proof -
  have "w AND mask k = w" using assms(1) by (simp add: less_mask_eq)
  then show ?thesis using assms(2) by (metis bit_and_iff bit_mask_iff)
qed

lemma ucast_16_32_id:
  fixes w :: "32 word"
  assumes "w < 2 ^ 16"
  shows "(ucast (ucast w :: 16 word) :: 32 word) = w"
  by (rule bit_word_eqI) (auto simp: bit_simps dest: bit_lt32 [OF assms])


lemma word_of_int_16:
  fixes w :: "32 word"
  assumes "112 \<le> uint w" "uint w < 256"
  shows "(ucast (word_of_int (uint w - 127 + 15) :: 16 word) :: 32 word) = w - 112"
proof -
  have le: "uint (112 :: 32 word) \<le> uint w" using assms by simp
  have u: "uint (w - 112) = uint w - 112"
    using le unfolding uint_sub_lem by simp
  have "(word_of_int (uint w - 127 + 15) :: 16 word) = ucast (w - 112)"
    unfolding ucast_eq u by simp
  moreover have "w - 112 < 2 ^ 16"
    unfolding word_less_alt u using assms by simp
  ultimately show ?thesis by (simp add: ucast_16_32_id)
qed

lemma man_hi_lt: "drop_bit 13 ((x::32 word) AND 0x7FFFFF) < 2 ^ 10"
proof -
  have "drop_bit 13 (x AND mask 23) = drop_bit 13 (x AND mask 23) AND mask 10"
    by (rule bit_word_eqI) (auto simp: bit_simps)
  moreover have "drop_bit 13 (x AND mask 23) AND mask 10 < 2 ^ 10"
    by (rule and_mask_less') simp
  ultimately show ?thesis by (simp add: w32_mask_23)
qed

lemma f2h_normal:
  fixes x :: "32 word"
  assumes "113 \<le> uint (drop_bit 23 x AND 0xFF)" "uint (drop_bit 23 x AND 0xFF) \<le> 142"
  shows "float_to_half x =
     ucast (push_bit 15 (of_bool (bit x 31)) OR push_bit 10 ((drop_bit 23 x AND 0xFF) - 112)
            OR drop_bit 13 (x AND 0x7FFFFF))"
proof -
  have a: "(ucast (word_of_int (uint (drop_bit 23 x AND 0xFF) - 127 + 15) :: 16 word) :: 32 word)
        = (drop_bit 23 x AND 0xFF) - 112"
    using assms by (intro word_of_int_16) simp_all
  have b: "(ucast (ucast (drop_bit 13 (x AND 0x7FFFFF)) :: 16 word) :: 32 word)
        = drop_bit 13 (x AND 0x7FFFFF)"
    by (intro ucast_16_32_id order_less_trans [OF man_hi_lt]) simp
  show ?thesis
    unfolding float_to_half_def Let_def exponent_eq sign_bit a b
    using assms by simp
qed

lemma final_normal:
  "push_bit 31 (of_bool (bit x 31)) OR push_bit 23 (drop_bit 23 x AND mask 8)
     OR push_bit 13 (drop_bit 13 (x AND mask 23)) = (x :: 32 word) AND NOT (mask 13)"
  apply (rule bit_word_eqI)
  subgoal for n
    apply (cases "n = 31")
     apply (simp add: bit_simps bit_push_of_bool)
    apply (cases "n < 23")
    apply (auto simp add: bit_simps bit_push_of_bool)
    done
  done

lemma fields16:
  fixes E M :: "32 word" and b :: bool
  assumes "E < 2 ^ 5" "M < 2 ^ 10"
  defines "h \<equiv> (ucast (push_bit 15 (of_bool b) OR push_bit 10 E OR M) :: 16 word)"
  shows "(ucast (drop_bit 15 h) AND 1 :: 32 word) = of_bool b"
    and "(ucast (drop_bit 10 h) AND 0x1F :: 32 word) = E"
    and "(ucast h AND 0x3FF :: 32 word) = M"
proof -
  note bE = bit_lt32 [OF assms(1)] and bM = bit_lt32 [OF assms(2)]
  show "(ucast (drop_bit 15 h) AND 1 :: 32 word) = of_bool b"
    unfolding h_def w32_mask_1
    by (rule bit_word_eqI) (auto simp: bit_simps bit_push_of_bool dest: bE bM)
  show "(ucast (drop_bit 10 h) AND 0x1F :: 32 word) = E"
    unfolding h_def w32_mask_5
    by (rule bit_word_eqI) (auto simp: bit_simps bit_push_of_bool dest: bE bM)
  show "(ucast h AND 0x3FF :: 32 word) = M"
    unfolding h_def w32_mask_10
    by (rule bit_word_eqI) (auto simp: bit_simps bit_push_of_bool dest: bE bM)
qed

lemma h2f_normal:
  fixes E M :: "32 word" and b :: bool
  assumes "E < 2 ^ 5" "M < 2 ^ 10" "E \<noteq> 0" "E \<noteq> 31"
  shows "half_to_float (ucast (push_bit 15 (of_bool b) OR push_bit 10 E OR M))
       = Some (push_bit 31 (of_bool b) OR push_bit 23 (E + 127 - 15) OR push_bit 13 M)"
  unfolding half_to_float_def Let_def fields16 [OF assms(1,2)]
  using assms(3,4) by simp

lemma roundtrip_normal:
  fixes x :: "32 word"
  assumes "113 \<le> uint (drop_bit 23 x AND 0xFF)" "uint (drop_bit 23 x AND 0xFF) \<le> 142"
  shows "half_to_float (float_to_half x) = Some (x AND NOT (mask 13))"
proof -
  define E where "E = (drop_bit 23 x AND 0xFF) - 112"
  have le: "uint (112 :: 32 word) \<le> uint (drop_bit 23 x AND 0xFF)" using assms by simp
  have u: "uint E = uint (drop_bit 23 x AND 0xFF) - 112"
    unfolding E_def using le unfolding uint_sub_lem by simp
  have E5: "E < 2 ^ 5" unfolding word_less_alt u using assms by simp
  have E0: "E \<noteq> 0" using u assms by (auto simp: word_uint_eq_iff)
  have E31: "E \<noteq> 31" using u assms by (auto simp: word_uint_eq_iff)
  have bk: "E + 127 - 15 = drop_bit 23 x AND mask 8"
    unfolding E_def w32_mask_8 by simp
  have "half_to_float (float_to_half x)
      = Some (push_bit 31 (of_bool (bit x 31)) OR push_bit 23 (E + 127 - 15)
              OR push_bit 13 (drop_bit 13 (x AND 0x7FFFFF)))"
    unfolding f2h_normal [OF assms] E_def [symmetric]
    by (rule h2f_normal [OF E5 man_hi_lt E0 E31])
  then show ?thesis unfolding bk w32_mask_23 final_normal .
qed

lemma f2h_nan:
  fixes x :: "32 word"
  assumes "uint (drop_bit 23 x AND 0xFF) = 255" "x AND 0x7FFFFF \<noteq> 0"
  shows "float_to_half x = ucast (push_bit 15 (drop_bit 31 x AND 1) OR 0x7E00)"
  unfolding float_to_half_def Let_def exponent_eq using assms by simp

lemma f2h_inf:
  fixes x :: "32 word"
  assumes "uint (drop_bit 23 x AND 0xFF) = 255" "x AND 0x7FFFFF = 0"
  shows "float_to_half x = ucast (push_bit 15 (drop_bit 31 x AND 1) OR 0x7C00)"
  unfolding float_to_half_def Let_def exponent_eq using assms by simp

lemma f2h_overflow:
  fixes x :: "32 word"
  assumes "142 < uint (drop_bit 23 x AND 0xFF)" "uint (drop_bit 23 x AND 0xFF) < 255"
  shows "float_to_half x = ucast (push_bit 15 (drop_bit 31 x AND 1) OR 0x7C00)"
  unfolding float_to_half_def Let_def exponent_eq using assms by simp

lemma f2h_flush:
  fixes x :: "32 word"
  assumes "uint (drop_bit 23 x AND 0xFF) < 103"
  shows "float_to_half x = ucast (push_bit 15 (drop_bit 31 x AND 1))"
  unfolding float_to_half_def Let_def exponent_eq using assms by simp

lemma f2h_subnormal:
  fixes x :: "32 word"
  assumes "103 \<le> uint (drop_bit 23 x AND 0xFF)" "uint (drop_bit 23 x AND 0xFF) \<le> 112"
  shows "float_to_half x =
     ucast (push_bit 15 (drop_bit 31 x AND 1)
            OR drop_bit (nat (126 - uint (drop_bit 23 x AND 0xFF))) ((x AND 0x7FFFFF) OR 0x800000))"
proof -
  have k: "13 + nat (- 14 - (uint (drop_bit 23 x AND 0xFF) - 127))
         = nat (126 - uint (drop_bit 23 x AND 0xFF))"
    using assms by linarith
  show ?thesis
    unfolding float_to_half_def Let_def exponent_eq drop_bit_drop_bit k
    using assms by simp
qed

lemma h2f_zero:
  "half_to_float (ucast (push_bit 15 (of_bool b :: 32 word))) = Some (push_bit 31 (of_bool b))"
proof -
  have "(0::32 word) < 2 ^ 5" "(0::32 word) < 2 ^ 10" by simp_all
  from fields16 [OF this, of b] show ?thesis
    unfolding half_to_float_def Let_def by simp
qed

lemma h2f_subnormal:
  fixes hm :: "32 word"
  assumes "2 ^ p \<le> unat hm" "unat hm < 2 ^ Suc p" "p \<le> 9"
  shows "half_to_float (ucast (push_bit 15 (of_bool b) OR hm))
       = Some (push_bit 31 (of_bool b) OR push_bit 23 (of_nat (p + 103))
               OR push_bit 13 (push_bit (10 - p) hm AND 0x3FF))"
proof -
  have "(2::nat) ^ Suc p \<le> 2 ^ 10" using assms(3) by (intro power_increasing) simp_all
  with assms have "unat hm < 2 ^ 10" by linarith
  then have hm: "hm < 2 ^ 10" by (simp add: word_less_nat_alt)
  have "0 < (2::nat) ^ p" by simp
  with assms(1) have "0 < unat hm" by linarith
  then have hm0: "hm \<noteq> 0" by auto
  have z: "(0::32 word) < 2 ^ 5" by simp
  have st: "half_normalize hm 1 = Some (push_bit (10 - p) hm, 1 - of_nat (10 - p))"
    using assms by (intro half_normalize_steps [of p]) simp_all
  have ex: "(113 - of_nat (10 - p) :: 32 word) = of_nat p + 103"
    using assms(3) by (simp add: of_nat_diff)
  from fields16 [OF z hm, of b] show ?thesis
    unfolding half_to_float_def Let_def using hm0 by (simp add: st ex)
qed

lemma bit_23_push: "(0x800000::32 word) = push_bit 23 1" by simp

lemma bit_2p23: "bit (0x800000 :: 32 word) n = (n = 23)"
proof -
  have "(0x800000::32 word) = push_bit 23 (of_bool True)" by simp
  then show ?thesis by (simp only: bit_push_of_bool) simp
qed

lemma bit_2p23_int: "bit (0x800000 :: int) n = (n = 23)"
proof -
  have "(0x800000::int) = 2 ^ 23" by simp
  then show ?thesis by (simp only: bit_exp_iff) auto
qed

lemma man_or_bounds:
  fixes x :: "32 word"
  shows "2 ^ 23 \<le> unat ((x AND 0x7FFFFF) OR 0x800000)"
    and "unat ((x AND 0x7FFFFF) OR 0x800000) < 2 ^ 24"
proof -
  have "(0x800000::32 word) \<le> (x AND 0x7FFFFF) OR 0x800000" by (rule le_word_or1)
  then show "2 ^ 23 \<le> unat ((x AND 0x7FFFFF) OR 0x800000)"
    unfolding word_le_nat_alt by simp
  have "(x AND mask 23) OR push_bit 23 1 = ((x AND mask 23) OR push_bit 23 1) AND mask 24"
    by (rule bit_word_eqI) (auto simp: bit_simps bit_2p23 bit_2p23_int)
  moreover have "((x AND mask 23) OR push_bit 23 1) AND mask 24 < 2 ^ 24"
    by (rule and_mask_less') simp
  ultimately have "(x AND 0x7FFFFF) OR 0x800000 < 2 ^ 24" unfolding w32_mask_23 bit_23_push by simp
  then show "unat ((x AND 0x7FFFFF) OR 0x800000) < 2 ^ 24"
    unfolding word_less_nat_alt by simp
qed

lemma div_pow_bounds:
  fixes a :: nat
  assumes "2 ^ 23 \<le> a" "a < 2 ^ 24" "k \<le> 23"
  shows "2 ^ (23 - k) \<le> a div 2 ^ k" and "a div 2 ^ k < 2 ^ Suc (23 - k)"
proof -
  have e1: "(2::nat) ^ 23 = 2 ^ (23 - k) * 2 ^ k"
    using assms(3) by (simp flip: power_add)
  have e2: "(2::nat) ^ 24 = 2 ^ Suc (23 - k) * 2 ^ k"
    using assms(3) by (simp add: Suc_diff_le flip: power_add power_Suc)
  have "(2 ^ (23 - k) * 2 ^ k) div 2 ^ k \<le> a div 2 ^ k"
    using assms(1) unfolding e1 [symmetric] by (rule div_le_mono)
  then show "2 ^ (23 - k) \<le> a div 2 ^ k" by simp
  have "a < 2 ^ Suc (23 - k) * 2 ^ k" using assms(2) unfolding e2 .
  then show "a div 2 ^ k < 2 ^ Suc (23 - k)"
    by (simp add: less_mult_imp_div_less)
qed

lemma final_subnormal:
  fixes x :: "32 word"
  assumes "14 \<le> k" "k \<le> 23"
  shows "push_bit 31 (of_bool (bit x 31)) OR push_bit 23 (drop_bit 23 x AND mask 8)
     OR push_bit 13 (push_bit (k - 13) (drop_bit k ((x AND mask 23) OR push_bit 23 1)) AND mask 10)
     = x AND NOT (mask k)"
  apply (rule bit_word_eqI)
  subgoal for n
    using assms
    apply (cases "n = 31"; cases "n < 23"; cases "n < k")
    apply (auto simp add: bit_simps bit_push_of_bool)
    apply (simp_all add: bit_2p23 bit_2p23_int)
    done
  done

lemma roundtrip_subnormal:
  fixes x :: "32 word"
  assumes "103 \<le> uint (drop_bit 23 x AND 0xFF)" "uint (drop_bit 23 x AND 0xFF) \<le> 112"
  shows "half_to_float (float_to_half x)
       = Some (x AND NOT (mask (nat (126 - uint (drop_bit 23 x AND 0xFF)))))"
proof -
  define k where "k = nat (126 - uint (drop_bit 23 x AND 0xFF))"
  define hm where "hm = drop_bit k ((x AND 0x7FFFFF) OR 0x800000)"
  have k: "14 \<le> k" "k \<le> 23" using assms unfolding k_def by linarith+
  have uh: "unat hm = unat ((x AND 0x7FFFFF) OR 0x800000) div 2 ^ k"
    unfolding hm_def unat_drop_bit_eq by (rule drop_bit_eq_div)
  have b1: "2 ^ (23 - k) \<le> unat hm" and b2: "unat hm < 2 ^ Suc (23 - k)"
    unfolding uh using div_pow_bounds [OF man_or_bounds [of x] k(2)] by simp_all
  have p9: "23 - k \<le> 9" using k by simp
  have ex: "(of_nat (23 - k + 103) :: 32 word) = drop_bit 23 x AND mask 8"
  proof -
    have "int (23 - k + 103) = uint (drop_bit 23 x AND 0xFF)"
      using assms unfolding k_def by linarith
    then have "(of_nat (23 - k + 103) :: 32 word) = word_of_int (uint (drop_bit 23 x AND 0xFF))"
      by (metis of_nat_nat word_of_int_uint of_int_of_nat_eq)
    then show ?thesis by (simp add: w32_mask_8)
  qed
  have sh: "10 - (23 - k) = k - 13" using k by simp
  have "half_to_float (float_to_half x)
      = Some (push_bit 31 (of_bool (bit x 31)) OR push_bit 23 (of_nat (23 - k + 103))
               OR push_bit 13 (push_bit (10 - (23 - k)) hm AND 0x3FF))"
    unfolding f2h_subnormal [OF assms] sign_bit k_def [symmetric] hm_def [symmetric]
    by (rule h2f_subnormal [OF b1 b2 p9])
  then have "half_to_float (float_to_half x) = Some (x AND NOT (mask k))"
    unfolding ex sh hm_def w32_mask_23 bit_23_push w32_mask_10 final_subnormal [OF k] .
  then show ?thesis unfolding k_def .
qed

lemma trunc_fields:
  fixes x :: "32 word"
  assumes "k \<le> 23"
  shows "drop_bit 23 (x AND NOT (mask k)) AND 0xFF = drop_bit 23 x AND 0xFF"
    and "bit (x AND NOT (mask k)) 31 = bit x 31"
    and "(x AND NOT (mask k)) AND 0x7FFFFF = (x AND 0x7FFFFF) AND NOT (mask k)"
proof -
  show "drop_bit 23 (x AND NOT (mask k)) AND 0xFF = drop_bit 23 x AND 0xFF"
    unfolding w32_mask_8 using assms by (intro bit_word_eqI) (auto simp: bit_simps)
  show "bit (x AND NOT (mask k)) 31 = bit x 31"
    using assms by (auto simp: bit_simps)
  show "(x AND NOT (mask k)) AND 0x7FFFFF = (x AND 0x7FFFFF) AND NOT (mask k)"
    by (simp add: ac_simps)
qed

lemma unat_trunc:
  fixes w :: "32 word"
  shows "unat (w AND NOT (mask k)) = unat w div 2 ^ k * 2 ^ k"
proof -
  have "w AND NOT (mask k) = push_bit k (drop_bit k w)"
    by (rule bit_word_eqI) (auto simp: bit_simps)
  then have "unat (w AND NOT (mask k)) = take_bit 32 (push_bit k (drop_bit k (unat w)))"
    by (simp only: unsigned_push_bit_eq unat_drop_bit_eq) simp
  also have "push_bit k (drop_bit k (unat w)) = unat w div 2 ^ k * 2 ^ k"
    by (simp only: push_bit_eq_mult drop_bit_eq_div)
  also have "take_bit 32 (unat w div 2 ^ k * 2 ^ k) = unat w div 2 ^ k * 2 ^ k"
  proof (rule take_bit_nat_eq_self)
    have "unat w div 2 ^ k * 2 ^ k \<le> unat w" by simp
    also have "unat w < 2 ^ 32" using unsigned_less [of w] by simp
    finally show "unat w div 2 ^ k * 2 ^ k < 2 ^ 32" .
  qed
  finally show ?thesis .
qed

lemma float_val_trunc:
  fixes x :: "32 word"
  assumes k: "k \<le> 23" and e: "unat (drop_bit 23 x AND 0xFF) \<noteq> 0"
  defines "y \<equiv> x AND NOT (mask k)"
  defines "r \<equiv> real (unat (x AND 0x7FFFFF) mod 2 ^ k) * 2 ^ unat (drop_bit 23 x AND 0xFF) / 2 ^ 150"
  shows "float_val x = (if bit x 31 then float_val y - r else float_val y + r)"
proof -
  define a where "a = unat (x AND 0x7FFFFF)"
  define en where "en = unat (drop_bit 23 x AND 0xFF)"
  have ay: "unat (y AND 0x7FFFFF) = a div 2 ^ k * 2 ^ k"
    unfolding y_def trunc_fields(3) [OF k] unat_trunc a_def ..
  have "a div 2 ^ k * 2 ^ k + a mod 2 ^ k = a" by (rule div_mult_mod_eq)
  then have "real a = real (a div 2 ^ k * 2 ^ k + a mod 2 ^ k)" by (rule arg_cong [symmetric])
  then have a: "real a = real (a div 2 ^ k * 2 ^ k) + real (a mod 2 ^ k)"
    by (simp only: of_nat_add)
  have fx: "float_val x = (if bit x 31 then - 1 else 1) * (real (2 ^ 23 + a) * 2 ^ en / 2 ^ 150)"
    unfolding float_val_def Let_def a_def [symmetric] en_def [symmetric] using e
    by (simp add: en_def)
  have fy: "float_val y = (if bit x 31 then - 1 else 1) * (real (2 ^ 23 + a div 2 ^ k * 2 ^ k) * 2 ^ en / 2 ^ 150)"
    unfolding float_val_def Let_def ay
    unfolding y_def trunc_fields(1,2) [OF k] en_def [symmetric] using e
    by (simp add: en_def)
  have "real (2 ^ 23 + a) * 2 ^ en / 2 ^ 150
      = real (2 ^ 23 + a div 2 ^ k * 2 ^ k) * 2 ^ en / 2 ^ 150 + real (a mod 2 ^ k) * 2 ^ en / 2 ^ 150"
    unfolding of_nat_add [of "2 ^ 23" a] a
    by (simp add: field_simps)
  then show ?thesis
    unfolding fx fy r_def a_def [symmetric] en_def [symmetric] by simp
qed

lemma float_val_sign: "(if bit x 31 then float_val x \<le> 0 else 0 \<le> float_val x)"
proof -
  have "0 \<le> (if unat (drop_bit 23 x AND 0xFF) = 0 then real (unat (x AND 0x7FFFFF)) / 2 ^ 149
      else real (2 ^ 23 + unat (x AND 0x7FFFFF)) * 2 ^ unat (drop_bit 23 x AND 0xFF) / 2 ^ 150)"
    by (simp del: of_nat_add of_nat_unat)
  then show ?thesis unfolding float_val_def Let_def by (simp split: if_splits)
qed

lemma half_ulp_normal:
  "113 \<le> unat (drop_bit 23 x AND 0xFF) \<Longrightarrow>
   (2::real) ^ 13 * 2 ^ unat (drop_bit 23 x AND 0xFF) / 2 ^ 150 = half_ulp x"
  unfolding half_ulp_def Let_def by simp

lemma half_ulp_subnormal:
  assumes "103 \<le> unat (drop_bit 23 x AND 0xFF)" "unat (drop_bit 23 x AND 0xFF) \<le> 112"
  shows "(2::real) ^ (126 - unat (drop_bit 23 x AND 0xFF)) * 2 ^ unat (drop_bit 23 x AND 0xFF) / 2 ^ 150
       = half_ulp x"
proof -
  have "(2::real) ^ (126 - unat (drop_bit 23 x AND 0xFF)) * 2 ^ unat (drop_bit 23 x AND 0xFF) = 2 ^ 126"
    using assms by (simp flip: power_add)
  then show ?thesis unfolding half_ulp_def Let_def using assms by simp
qed

lemma roundtrip_value:
  fixes x :: "32 word"
  assumes k: "k \<le> 23" and e: "unat (drop_bit 23 x AND 0xFF) \<noteq> 0"
    and ulp: "(2::real) ^ k * 2 ^ unat (drop_bit 23 x AND 0xFF) / 2 ^ 150 = half_ulp x"
  defines "y \<equiv> x AND NOT (mask k)"
  shows "\<bar>float_val y\<bar> \<le> \<bar>float_val x\<bar>" and "\<bar>float_val x - float_val y\<bar> < half_ulp x"
    and "bit y 31 = bit x 31"
proof -
  define r where "r = real (unat (x AND 0x7FFFFF) mod 2 ^ k) * 2 ^ unat (drop_bit 23 x AND 0xFF) / 2 ^ 150"
  have fx: "float_val x = (if bit x 31 then float_val y - r else float_val y + r)"
    unfolding y_def r_def by (rule float_val_trunc [OF k e])
  have r0: "0 \<le> r" unfolding r_def by simp
  have "real (unat (x AND 0x7FFFFF) mod 2 ^ k) < 2 ^ k"
    by (metis mod_less_divisor of_nat_less_iff of_nat_numeral of_nat_power zero_less_numeral zero_less_power)
  then have "r < (2::real) ^ k * 2 ^ unat (drop_bit 23 x AND 0xFF) / 2 ^ 150"
    unfolding r_def by (simp add: divide_strict_right_mono)
  then have r1: "r < half_ulp x" unfolding ulp .
  have sy: "bit y 31 = bit x 31" unfolding y_def by (rule trunc_fields(2) [OF k])
  have ys: "(if bit x 31 then float_val y \<le> 0 else 0 \<le> float_val y)"
    using float_val_sign [of y] unfolding sy .
  show "\<bar>float_val y\<bar> \<le> \<bar>float_val x\<bar>" using fx r0 ys by (auto split: if_splits)
  show "\<bar>float_val x - float_val y\<bar> < half_ulp x" using fx r0 r1 by (auto split: if_splits)
  show "bit y 31 = bit x 31" by (rule sy)
qed

lemma uint_fexp: "uint (drop_bit 23 (x::32 word) AND 0xFF) = int (unat (drop_bit 23 x AND 0xFF))"
  by (rule uint_nat)

lemma half_normalize_total:
  fixes m :: "32 word"
  assumes "m \<noteq> 0" "m < 2 ^ 10"
  shows "\<exists>r. half_normalize m e = Some r"
proof -
  have "1 \<le> unat m" using assms(1) by (simp add: unat_gt_0 Suc_le_eq)
  from ex_power_ivl1 [OF _ this, of 2] obtain p where p: "2 ^ p \<le> unat m" "unat m < 2 ^ Suc p"
    by auto
  have "unat m < 2 ^ 10" using assms(2) unfolding word_less_nat_alt by simp
  with p(1) have "(2::nat) ^ p < 2 ^ 10" by linarith
  then have "p < 10" by (simp only: power_strict_increasing_iff) 
  then have "p + (10 - p) = 10" by simp
  from half_normalize_steps [OF p this] show ?thesis by blast
qed

lemma half_to_float_total: "\<exists>y. half_to_float h = Some y"
proof (cases "(ucast h AND 0x3FF :: 32 word) = 0")
  case True
  then show ?thesis unfolding half_to_float_def Let_def by simp
next
  case False
  have "(ucast h AND mask 10 :: 32 word) < 2 ^ 10" by (rule and_mask_less') simp
  then have "(ucast h AND 0x3FF :: 32 word) < 2 ^ 10" by (simp add: w32_mask_10)
  from half_normalize_total [OF False this, of 1]
  obtain r where "half_normalize (ucast h AND 0x3FF) 1 = Some r" by blast
  then show ?thesis unfolding half_to_float_def Let_def by (cases r) simp
qed

lemma sub_mantissa_bounds:
  fixes x :: "32 word"
  assumes k: "14 \<le> k" "k \<le> 23"
  defines "hm \<equiv> drop_bit k ((x AND 0x7FFFFF) OR 0x800000)"
  shows "2 ^ (23 - k) \<le> unat hm" and "unat hm < 2 ^ Suc (23 - k)"
    and "hm < 2 ^ 10" and "hm \<noteq> 0"
proof -
  have uh: "unat hm = unat ((x AND 0x7FFFFF) OR 0x800000) div 2 ^ k"
    unfolding hm_def unat_drop_bit_eq by (rule drop_bit_eq_div)
  show b1: "2 ^ (23 - k) \<le> unat hm" and b2: "unat hm < 2 ^ Suc (23 - k)"
    unfolding uh using div_pow_bounds [OF man_or_bounds [of x] k(2)] by simp_all
  have "(2::nat) ^ Suc (23 - k) \<le> 2 ^ 10" using k by (intro power_increasing) simp_all
  with b2 have "unat hm < 2 ^ 10" by linarith
  then show "hm < 2 ^ 10" by (simp add: word_less_nat_alt)
  have "0 < (2::nat) ^ (23 - k)" by simp
  with b1 have "0 < unat hm" by linarith
  then show "hm \<noteq> 0" by auto
qed

text \<open>
  Claim C7.  \<open>float_to_half\<close> converts to IEEE 754 binary16 and \<open>half_to_float\<close> converts
  back.  With \<open>e\<close> the biased exponent, \<open>m\<close> the mantissa and \<open>sign\<close> the sign bit of
  the float \<open>x\<close>:
  \<^item> a NaN (\<open>e = 255\<close>, \<open>m \<noteq> 0\<close>), whatever its payload, becomes the one code
    \<open>0x7E00\<close> with the sign of \<open>x\<close>;
  \<^item> an infinity and every finite \<open>x\<close> of magnitude \<open>2^16\<close> or more (\<open>e > 142\<close>) become
    the infinity \<open>0x7C00\<close> with the sign of \<open>x\<close>;
  \<^item> every \<open>x\<close> of magnitude below \<open>2^-24\<close> (\<open>e < 103\<close>: zero, the binary32 subnormals
    and the small normals) becomes the zero of its sign, which decodes to the zero of
    that sign;
  \<^item> in the subnormal range of binary16 (\<open>103 \<le> e \<le> 112\<close>) the code is denormalised:
    exponent field 0, mantissa field not 0;
  \<^item> for every \<open>x\<close> from \<open>2^-24\<close> up to (not including) \<open>2^16\<close> (\<open>103 \<le> e \<le> 142\<close>) decoding the
    code returns, and gives \<open>x\<close> with its low bits cleared (13 bits, more in the
    subnormal range): the same sign, a magnitude not above that of \<open>x\<close>, and a value
    less than one binary16 unit in the last place away from \<open>x\<close>.
\<close>

theorem half_codec:
  fixes x :: "32 word"
  defines "sign \<equiv> drop_bit 31 x AND 1"
      and "e \<equiv> unat (drop_bit 23 x AND 0xFF)"
      and "m \<equiv> x AND 0x7FFFFF"
  shows "(e = 255 \<and> m \<noteq> 0 \<longrightarrow> float_to_half x = ucast (push_bit 15 sign OR 0x7E00))
       \<and> ((e = 255 \<and> m = 0) \<or> (142 < e \<and> e < 255) \<longrightarrow>
            float_to_half x = ucast (push_bit 15 sign OR 0x7C00))
       \<and> (e < 103 \<longrightarrow> float_to_half x = ucast (push_bit 15 sign)
            \<and> half_to_float (float_to_half x) = Some (push_bit 31 sign))
       \<and> (103 \<le> e \<and> e \<le> 112 \<longrightarrow>
            float_to_half x = ucast (push_bit 15 sign OR drop_bit (126 - e) (m OR 0x800000))
            \<and> (ucast (drop_bit 10 (float_to_half x)) AND 0x1F :: 32 word) = 0
            \<and> (ucast (float_to_half x) AND 0x3FF :: 32 word) \<noteq> 0)
       \<and> (103 \<le> e \<and> e \<le> 142 \<longrightarrow>
            (\<exists>y. half_to_float (float_to_half x) = Some y
                 \<and> y = x AND NOT (mask (max 13 (126 - e)))
                 \<and> bit y 31 = bit x 31
                 \<and> \<bar>float_val y\<bar> \<le> \<bar>float_val x\<bar>
                 \<and> \<bar>float_val x - float_val y\<bar> < half_ulp x))"
proof (intro conjI impI)
  assume "e = 255 \<and> m \<noteq> 0"
  then show "float_to_half x = ucast (push_bit 15 sign OR 0x7E00)"
    unfolding e_def m_def sign_def by (intro f2h_nan; (unfold uint_fexp)?; linarith?; simp)
next
  assume "(e = 255 \<and> m = 0) \<or> (142 < e \<and> e < 255)"
  then show "float_to_half x = ucast (push_bit 15 sign OR 0x7C00)"
    unfolding e_def m_def sign_def
    apply (elim disjE)
     apply (rule f2h_inf; (unfold uint_fexp)?; linarith?; simp)
    apply (rule f2h_overflow; (unfold uint_fexp)?; linarith)
    done
next
  assume a: "e < 103"
  then show f: "float_to_half x = ucast (push_bit 15 sign)"
    unfolding e_def sign_def by (intro f2h_flush; unfold uint_fexp; linarith)
  show "half_to_float (float_to_half x) = Some (push_bit 31 sign)"
    unfolding f unfolding sign_def sign_bit by (rule h2f_zero)
next
  assume a: "103 \<le> e \<and> e \<le> 112"
  then have u: "103 \<le> uint (drop_bit 23 x AND 0xFF)" "uint (drop_bit 23 x AND 0xFF) \<le> 112"
    unfolding e_def uint_fexp by linarith+
  have k: "nat (126 - uint (drop_bit 23 x AND 0xFF)) = 126 - e"
    unfolding e_def uint_fexp by linarith
  show f: "float_to_half x = ucast (push_bit 15 sign OR drop_bit (126 - e) (m OR 0x800000))"
    using f2h_subnormal [OF u] unfolding k sign_def m_def .
  have k14: "14 \<le> 126 - e" "126 - e \<le> 23" using a by arith+
  have hm: "drop_bit (126 - e) (m OR 0x800000) < 2 ^ 10"
    unfolding m_def by (rule sub_mantissa_bounds(3) [OF k14])
  have z: "(0::32 word) < 2 ^ 5" by simp
  have hm0: "drop_bit (126 - e) (m OR 0x800000) \<noteq> 0"
    unfolding m_def by (rule sub_mantissa_bounds(4) [OF k14])
  from fields16 [OF z hm, of "bit x 31"]
  show "(ucast (drop_bit 10 (float_to_half x)) AND 0x1F :: 32 word) = 0"
    and "(ucast (float_to_half x) AND 0x3FF :: 32 word) \<noteq> 0"
    unfolding f sign_def sign_bit using hm0 by simp_all
next
  assume a: "103 \<le> e \<and> e \<le> 142"
  have e0: "unat (drop_bit 23 x AND 0xFF) \<noteq> 0" using a unfolding e_def by simp
  show "\<exists>y. half_to_float (float_to_half x) = Some y
                 \<and> y = x AND NOT (mask (max 13 (126 - e)))
                 \<and> bit y 31 = bit x 31
                 \<and> \<bar>float_val y\<bar> \<le> \<bar>float_val x\<bar>
                 \<and> \<bar>float_val x - float_val y\<bar> < half_ulp x"
  proof (cases "e \<le> 112")
    case True
    with a have u: "103 \<le> uint (drop_bit 23 x AND 0xFF)" "uint (drop_bit 23 x AND 0xFF) \<le> 112"
      unfolding e_def uint_fexp by linarith+
    have k: "nat (126 - uint (drop_bit 23 x AND 0xFF)) = 126 - e"
      unfolding e_def uint_fexp by linarith
    have mx: "max 13 (126 - e) = 126 - e" using True by simp
    have k23: "126 - e \<le> 23" using a by arith
    have ulp: "(2::real) ^ (126 - e) * 2 ^ unat (drop_bit 23 x AND 0xFF) / 2 ^ 150 = half_ulp x"
      unfolding e_def using a True unfolding e_def by (intro half_ulp_subnormal) simp_all
    show ?thesis
      unfolding mx using roundtrip_subnormal [OF u] roundtrip_value [OF k23 e0 ulp]
      unfolding k by simp
  next
    case False
    with a have u: "113 \<le> uint (drop_bit 23 x AND 0xFF)" "uint (drop_bit 23 x AND 0xFF) \<le> 142"
      unfolding e_def uint_fexp by linarith+
    have mx: "max 13 (126 - e) = 13" using False by simp
    have ulp: "(2::real) ^ 13 * 2 ^ unat (drop_bit 23 x AND 0xFF) / 2 ^ 150 = half_ulp x"
      using False unfolding e_def by (intro half_ulp_normal) simp
    have k23: "(13::nat) \<le> 23" by simp
    show ?thesis
      unfolding mx using roundtrip_normal [OF u] roundtrip_value [OF k23 e0 ulp]
      by simp
  qed
qed

theorem half_codec_witness:
  "float_to_half 0x7FC12345 = 0x7E00
   \<and> float_to_half 0xFF800000 = 0xFC00
   \<and> float_to_half 0x47800000 = 0x7C00
   \<and> half_to_float (float_to_half 0x80000001) = Some 0x80000000
   \<and> float_to_half 0x33C00000 = 0x0001
   \<and> half_to_float (float_to_half 0x3FC01234) = Some 0x3FC00000
   \<and> \<bar>float_val 0x3FC01234 - float_val 0x3FC00000\<bar> < half_ulp 0x3FC01234
   \<and> half_to_float (float_to_half 0xB3C00000) = Some 0xB3800000"
  using half_codec [of "0x7FC12345"] half_codec [of "0xFF800000"] half_codec [of "0x47800000"]
    half_codec [of "0x80000001"] half_codec [of "0x33C00000"] half_codec [of "0x3FC01234"]
    half_codec [of "0xB3C00000"]
  by (simp add: mask_eq_exp_minus_1 cong: conj_cong)

section \<open>Int8 quantisation\<close>

text \<open>
  The exponent found by \<open>f32_exponent\<close> is that of the binade, and rounding to the nearest
  integer moves a number by at most one half.
\<close>

lemma two_powi_less_iff: "(2::real) powi a < 2 powi b \<longleftrightarrow> a < b"
proof
  assume l: "(2::real) powi a < 2 powi b"
  show "a < b"
  proof (rule ccontr)
    assume "\<not> a < b"
    then have "b \<le> a" by simp
    then have "(2::real) powi b \<le> 2 powi a" by (intro power_int_increasing) simp_all
    with l show False by simp
  qed
next
  assume "a < b"
  then show "(2::real) powi a < 2 powi b" by (intro power_int_strict_increasing) simp_all
qed

lemma f32_exponent_from_eq:
  assumes "2 powi e \<le> a" "a < 2 powi (e + 1)" "e0 \<le> e" "nat (e - e0) \<le> n"
  shows "f32_exponent_from n e0 a = e"
  using assms
proof (induction n arbitrary: e0)
  case 0
  then show ?case by simp
next
  case (Suc n)
  show ?case
  proof (cases "a < 2 powi (e0 + 1)")
    case True
    with Suc.prems(1) have "(2::real) powi e < 2 powi (e0 + 1)" by simp
    then have "e < e0 + 1" by (simp only: two_powi_less_iff)
    with Suc.prems(3) have "e0 = e" by simp
    with True show ?thesis by simp
  next
    case False
    then have "(2::real) powi (e0 + 1) \<le> a" by simp
    with Suc.prems(2) have "(2::real) powi (e0 + 1) < 2 powi (e + 1)" by simp
    then have "e0 + 1 < e + 1" by (simp only: two_powi_less_iff)
    then have "e0 + 1 \<le> e" "nat (e - (e0 + 1)) \<le> n" using Suc.prems(4) by simp_all
    from Suc.IH [OF Suc.prems(1) Suc.prems(2) this] False show ?thesis by simp
  qed
qed

lemma f32_exponent_from_low:
  assumes "a < 2 powi (e0 + 1)"
  shows "f32_exponent_from n e0 a = e0"
  using assms by (cases n) simp_all

lemma f32_exponent_eq:
  assumes "- 126 \<le> e" "e \<le> 127" "2 powi e \<le> a" "a < 2 powi (e + 1)"
  shows "f32_exponent a = e"
  unfolding f32_exponent_def using assms by (intro f32_exponent_from_eq) simp_all

lemma f32_exponent_low: "a < 2 powi (- 125) \<Longrightarrow> f32_exponent a = - 126"
  unfolding f32_exponent_def by (intro f32_exponent_from_low) simp

lemma f32_exponent_from_high:
  assumes "2 powi (e0 + int n) \<le> a"
  shows "f32_exponent_from n e0 a = e0 + int n"
  using assms
proof (induction n arbitrary: e0)
  case 0
  then show ?case by simp
next
  case (Suc n)
  have "(2::real) powi (e0 + 1) \<le> 2 powi (e0 + int (Suc n))"
    by (intro power_int_increasing) simp_all
  with Suc.prems have "\<not> a < 2 powi (e0 + 1)" by simp
  moreover have "f32_exponent_from n (e0 + 1) a = e0 + 1 + int n"
    using Suc.prems by (intro Suc.IH) (simp add: add.assoc)
  ultimately show ?case by simp
qed

lemma f32_exponent_high: "2 powi 127 \<le> a \<Longrightarrow> f32_exponent a = 127"
  unfolding f32_exponent_def using f32_exponent_from_high [of "- 126" 253 a] by simp

lemma f32_exponent_range: "- 126 \<le> f32_exponent a" "f32_exponent a \<le> 127"
proof -
  have r: "e0 \<le> f32_exponent_from n e0 a \<and> f32_exponent_from n e0 a \<le> e0 + int n" for n e0
  proof (induction n arbitrary: e0)
    case 0 show ?case by simp
  next
    case (Suc n)
    from Suc.IH [of "e0 + 1"] show ?case by simp
  qed
  from r [of "- 126" 253] show "- 126 \<le> f32_exponent a" "f32_exponent a \<le> 127"
    unfolding f32_exponent_def by simp_all
qed

lemma f32_exponent_le:
  assumes "2 powi (- 126) \<le> a"
  shows "2 powi (f32_exponent a) \<le> a"
proof -
  have r: "2 powi e0 \<le> a \<Longrightarrow> 2 powi (f32_exponent_from n e0 a) \<le> a" for n e0
  proof (induction n arbitrary: e0)
    case 0 then show ?case by simp
  next
    case (Suc n)
    show ?case
    proof (cases "a < 2 powi (e0 + 1)")
      case True with Suc.prems show ?thesis by simp
    next
      case False
      then have "2 powi (e0 + 1) \<le> a" by simp
      from Suc.IH [OF this] False show ?thesis by simp
    qed
  qed
  from r [OF assms, of 253] show ?thesis unfolding f32_exponent_def .
qed

lemma rne_err: "\<bar>real_of_int (rne x) - x\<bar> \<le> 1 / 2"
proof -
  have "real_of_int \<lfloor>x\<rfloor> \<le> x" "x < real_of_int \<lfloor>x\<rfloor> + 1" by linarith+
  then show ?thesis unfolding rne_def Let_def by (auto simp: abs_le_iff)
qed

lemma rne_of_int [simp]: "rne (of_int n) = n"
  by (simp add: rne_def)

lemma rne_mono: "x \<le> y \<Longrightarrow> rne x \<le> rne y"
proof -
  assume xy: "x \<le> y"
  have fx: "real_of_int \<lfloor>x\<rfloor> \<le> x" "x < real_of_int \<lfloor>x\<rfloor> + 1" by linarith+
  have fy: "real_of_int \<lfloor>y\<rfloor> \<le> y" "y < real_of_int \<lfloor>y\<rfloor> + 1" by linarith+
  have fl: "\<lfloor>x\<rfloor> \<le> \<lfloor>y\<rfloor>" using xy by (rule floor_mono)
  show ?thesis
  proof (cases "\<lfloor>x\<rfloor> = \<lfloor>y\<rfloor>")
    case True
    then show ?thesis using xy unfolding rne_def Let_def by auto
  next
    case False
    with fl have "\<lfloor>x\<rfloor> + 1 \<le> \<lfloor>y\<rfloor>" by simp
    moreover have "rne x \<le> \<lfloor>x\<rfloor> + 1" unfolding rne_def Let_def by auto
    moreover have "\<lfloor>y\<rfloor> \<le> rne y" unfolding rne_def Let_def by auto
    ultimately show ?thesis by linarith
  qed
qed

text \<open>
  The error of one binary32 operation: half the spacing, which is at most \<open>2^-24\<close> of
  the magnitude in the normal range and \<open>2^-150\<close> below it.  A result of magnitude up to
  the largest float is finite.
\<close>

lemma f32_quantum_pos: "0 < f32_quantum x"
  by (simp add: f32_quantum_def)

lemma f32_near_err: "\<bar>f32_near x - x\<bar> \<le> f32_quantum x / 2"
proof -
  define q where "q = f32_quantum x"
  have qp: "0 < q" unfolding q_def by (rule f32_quantum_pos)
  have "\<bar>real_of_int (rne (x / q)) - x / q\<bar> \<le> 1 / 2" by (rule rne_err)
  then have "\<bar>real_of_int (rne (x / q)) - x / q\<bar> * q \<le> 1 / 2 * q"
    using qp by (intro mult_right_mono) simp_all
  moreover have "\<bar>real_of_int (rne (x / q)) - x / q\<bar> * q = \<bar>real_of_int (rne (x / q)) * q - x\<bar>"
  proof -
    have "(real_of_int (rne (x / q)) - x / q) * q = real_of_int (rne (x / q)) * q - x"
      using qp by (simp add: left_diff_distrib)
    then have "\<bar>real_of_int (rne (x / q)) * q - x\<bar> = \<bar>real_of_int (rne (x / q)) - x / q\<bar> * \<bar>q\<bar>"
      by (simp only: abs_mult [symmetric])
    then show ?thesis using qp by simp
  qed
  ultimately show ?thesis unfolding f32_near_def q_def [symmetric] by simp
qed

lemma f32_quantum_normal:
  assumes "1 / 2 ^ 126 \<le> \<bar>x\<bar>"
  shows "f32_quantum x \<le> \<bar>x\<bar> / 2 ^ 23"
proof -
  have "(2::real) powi (- 126) \<le> \<bar>x\<bar>" using assms by (simp add: power_int_minus_divide)
  then have "2 powi (f32_exponent \<bar>x\<bar>) \<le> \<bar>x\<bar>" by (rule f32_exponent_le)
  moreover have "f32_quantum x = 2 powi (f32_exponent \<bar>x\<bar>) / 2 ^ 23"
    unfolding f32_quantum_def by (simp add: power_int_diff)
  ultimately show ?thesis by (simp add: divide_right_mono)
qed

lemma f32_quantum_subnormal:
  assumes "\<bar>x\<bar> < 1 / 2 ^ 126"
  shows "f32_quantum x = 1 / 2 ^ 149"
proof -
  have "\<bar>x\<bar> < 1 / 2 ^ 125" using assms by simp
  then have "\<bar>x\<bar> < 2 powi (- 125)" by (simp add: power_int_minus_divide)
  then have "f32_exponent \<bar>x\<bar> = - 126" by (rule f32_exponent_low)
  then show ?thesis unfolding f32_quantum_def by (simp add: power_int_minus_divide)
qed

lemma f32_near_err_normal:
  assumes "1 / 2 ^ 126 \<le> \<bar>x\<bar>"
  shows "\<bar>f32_near x - x\<bar> \<le> \<bar>x\<bar> / 2 ^ 24"
  using f32_near_err [of x] f32_quantum_normal [OF assms] by simp

lemma f32_near_err_any: "\<bar>f32_near x - x\<bar> \<le> \<bar>x\<bar> / 2 ^ 24 + 1 / 2 ^ 150"
proof (cases "1 / 2 ^ 126 \<le> \<bar>x\<bar>")
  case True
  from f32_near_err_normal [OF this] show ?thesis by simp
next
  case False
  then have "f32_quantum x = 1 / 2 ^ 149" by (intro f32_quantum_subnormal) simp
  with f32_near_err [of x] have "\<bar>f32_near x - x\<bar> \<le> 1 / 2 ^ 150" by simp
  moreover have "0 \<le> \<bar>x\<bar> / 2 ^ 24" by simp
  ultimately show ?thesis by linarith
qed

lemma f32_round_finite:
  assumes "\<bar>x\<bar> \<le> 2 ^ 127"
  shows "f32_round x = Fin (f32_near x)"
proof -
  have "\<bar>f32_near x\<bar> \<le> \<bar>x\<bar> + \<bar>f32_near x - x\<bar>" by linarith
  also have "\<dots> \<le> \<bar>x\<bar> + (\<bar>x\<bar> / 2 ^ 24 + 1 / 2 ^ 150)" using f32_near_err_any [of x] by simp
  also have "\<dots> \<le> 2 ^ 127 + (2 ^ 127 / 2 ^ 24 + 1 / 2 ^ 150)"
    using assms by (intro add_mono divide_right_mono) simp_all
  also have "\<dots> < (2::real) ^ 128" by simp
  finally show ?thesis by (simp add: f32_round_def)
qed

lemma rne_0 [simp]: "rne 0 = 0"
  by (simp add: rne_def)

lemma f32_near_0 [simp]: "f32_near 0 = 0"
  by (simp add: f32_near_def)

lemma f32_round_nonzero:
  assumes "1 / 2 ^ 150 < \<bar>x\<bar>"
  shows "f32_round x \<noteq> Fin 0"
proof -
  have "f32_near x \<noteq> 0"
  proof (cases "1 / 2 ^ 126 \<le> \<bar>x\<bar>")
    case True
    from f32_near_err_normal [OF this] have "\<bar>f32_near x - x\<bar> \<le> \<bar>x\<bar> / 2 ^ 24" .
    moreover have "\<bar>x\<bar> / 2 ^ 24 < \<bar>x\<bar>" using assms by simp
    ultimately show ?thesis by linarith
  next
    case False
    then have "f32_quantum x = 1 / 2 ^ 149" by (intro f32_quantum_subnormal) simp
    with f32_near_err [of x] have "\<bar>f32_near x - x\<bar> \<le> 1 / 2 ^ 150" by simp
    with assms show ?thesis by linarith
  qed
  then show ?thesis by (simp add: f32_round_def)
qed

text \<open>The running maximum of absolute values over reals, and the rounding of \<open>std::round\<close>.\<close>

lemma foldl_max_abs_ge: "acc \<le> foldl (\<lambda>acc v. max acc \<bar>v\<bar>) acc (inp :: real list)"
proof (induction inp arbitrary: acc)
  case Nil
  show ?case by simp
next
  case (Cons a inp)
  have "acc \<le> max acc \<bar>a\<bar>" by simp
  also have "\<dots> \<le> foldl (\<lambda>acc v. max acc \<bar>v\<bar>) (max acc \<bar>a\<bar>) inp" by (rule Cons.IH)
  finally show ?case by simp
qed

lemma foldl_max_abs_upper:
  "v \<in> set inp \<Longrightarrow> \<bar>v\<bar> \<le> foldl (\<lambda>acc v. max acc \<bar>v\<bar>) acc (inp :: real list)"
proof (induction inp arbitrary: acc)
  case Nil
  then show ?case by simp
next
  case (Cons a inp)
  show ?case
  proof (cases "v = a")
    case True
    have "\<bar>a\<bar> \<le> max acc \<bar>a\<bar>" by simp
    also have "\<dots> \<le> foldl (\<lambda>acc v. max acc \<bar>v\<bar>) (max acc \<bar>a\<bar>) inp"
      by (rule foldl_max_abs_ge)
    finally show ?thesis using True by simp
  next
    case False
    with Cons.prems have "v \<in> set inp" by simp
    then show ?thesis using Cons.IH by simp
  qed
qed

lemma foldl_max_abs_Max:
  "foldl (\<lambda>acc v. max acc \<bar>v\<bar>) acc (inp :: real list) = Max (insert acc (abs ` set inp))"
proof (induction inp arbitrary: acc)
  case Nil
  show ?case by simp
next
  case (Cons a inp)
  have "Max (insert (max acc \<bar>a\<bar>) (abs ` set inp)) = Max (insert acc (insert \<bar>a\<bar> (abs ` set inp)))"
  proof (cases "inp = []")
    case True
    then show ?thesis by simp
  next
    case False
    then have ne: "abs ` set inp \<noteq> {}" by simp
    have fin: "finite (abs ` set inp)" by simp
    show ?thesis
      by (simp only: Max_insert [OF fin ne] Max_insert [of "insert \<bar>a\<bar> (abs ` set inp)" acc]
          finite_insert fin insert_not_empty not_False_eq_True max.assoc)
  qed
  then show ?case using Cons.IH [of "max acc \<bar>a\<bar>"] by simp
qed

lemma foldl_max_abs_zero:
  "\<forall>v\<in>set inp. v = 0 \<Longrightarrow> 0 \<le> acc \<Longrightarrow> foldl (\<lambda>acc v. max acc \<bar>v\<bar>) acc (inp :: real list) = acc"
  by (induction inp arbitrary: acc) simp_all

lemma c_round_bounds:
  shows "real_of_int (c_round v) \<le> v + 1 / 2" and "v - 1 / 2 \<le> real_of_int (c_round v)"
proof -
  have f1: "real_of_int \<lfloor>v + 1 / 2\<rfloor> \<le> v + 1 / 2" by (rule of_int_floor_le)
  have f2: "v + 1 / 2 < real_of_int \<lfloor>v + 1 / 2\<rfloor> + 1" by (rule real_of_int_floor_add_one_gt)
  have c1: "v - 1 / 2 \<le> real_of_int \<lceil>v - 1 / 2\<rceil>" by (rule le_of_int_ceiling)
  have c2: "real_of_int \<lceil>v - 1 / 2\<rceil> < v - 1 / 2 + 1"
    using ceiling_correct [of "v - 1 / 2"] by linarith
  show "real_of_int (c_round v) \<le> v + 1 / 2"
  proof (cases "0 \<le> v")
    case True
    then have "c_round v = \<lfloor>v + 1 / 2\<rfloor>" by (simp add: c_round_def)
    then show ?thesis using f1 by simp
  next
    case False
    then have "c_round v = \<lceil>v - 1 / 2\<rceil>" by (simp add: c_round_def)
    then show ?thesis using c2 by simp
  qed
  show "v - 1 / 2 \<le> real_of_int (c_round v)"
  proof (cases "0 \<le> v")
    case True
    then have "c_round v = \<lfloor>v + 1 / 2\<rfloor>" by (simp add: c_round_def)
    then show ?thesis using f2 by linarith
  next
    case False
    then have "c_round v = \<lceil>v - 1 / 2\<rceil>" by (simp add: c_round_def)
    then show ?thesis using c1 by simp
  qed
qed

lemma c_round_err: "\<bar>real_of_int (c_round v) - v\<bar> \<le> 1 / 2"
  using c_round_bounds(1) [of v] c_round_bounds(2) [of v] by linarith

lemma c_round_range:
  assumes "- 127 \<le> v" "v \<le> 127"
  shows "- 127 \<le> c_round v" and "c_round v \<le> 127"
proof -
  from c_round_bounds(1) [of v] c_round_bounds(2) [of v] assms
  have "real_of_int (c_round v) < 128" "- 128 < real_of_int (c_round v)" by linarith+
  then have "c_round v < 128" "- 128 < c_round v" by linarith+
  then show "- 127 \<le> c_round v" and "c_round v \<le> 127" by linarith+
qed

text \<open>The running maximum of the source over finite floats is that over their values.\<close>

lemma std_max_Fin: "std_max (Fin a) (Fin b) = Fin (max a b)"
  by (simp add: std_max_def max_def)

lemma max_abs_finite:
  "foldl (\<lambda>acc v. std_max acc (f32_abs v)) (Fin a) (map Fin rs)
     = Fin (foldl (\<lambda>acc v. max acc \<bar>v\<bar>) a rs)"
  by (induction rs arbitrary: a) (simp_all add: std_max_Fin)

lemma max_abs_from_inf:
  "foldl (\<lambda>acc v. std_max acc (f32_abs v)) (Infty False) v = Infty False"
proof (induction v)
  case Nil show ?case by simp
next
  case (Cons x v)
  have "std_max (Infty False) (f32_abs x) = Infty False" by (cases x) (simp_all add: std_max_def)
  with Cons show ?case by simp
qed

text \<open>The running maximum over any floats: NaN is skipped, an infinity wins.\<close>

lemma max_abs_cases:
  assumes "0 \<le> a"
  shows "foldl (\<lambda>acc v. std_max acc (f32_abs v)) (Fin a) v = Infty False
         \<or> (\<exists>m. foldl (\<lambda>acc v. std_max acc (f32_abs v)) (Fin a) v = Fin m \<and> a \<le> m
               \<and> (\<forall>r. Fin r \<in> set v \<longrightarrow> \<bar>r\<bar> \<le> m))"
  using assms
proof (induction v arbitrary: a)
  case Nil then show ?case by simp
next
  case (Cons x v)
  show ?case
  proof (cases x)
    case (Fin r)
    have s: "std_max (Fin a) (f32_abs x) = Fin (max a \<bar>r\<bar>)" by (simp add: Fin std_max_Fin)
    have "0 \<le> max a \<bar>r\<bar>" using Cons.prems by simp
    from Cons.IH [OF this] show ?thesis
    proof
      assume "foldl (\<lambda>acc v. std_max acc (f32_abs v)) (Fin (max a \<bar>r\<bar>)) v = Infty False"
      then show ?thesis by (simp add: s)
    next
      assume "\<exists>m. foldl (\<lambda>acc v. std_max acc (f32_abs v)) (Fin (max a \<bar>r\<bar>)) v = Fin m
                 \<and> max a \<bar>r\<bar> \<le> m \<and> (\<forall>r. Fin r \<in> set v \<longrightarrow> \<bar>r\<bar> \<le> m)"
      then obtain m where m: "foldl (\<lambda>acc v. std_max acc (f32_abs v)) (Fin (max a \<bar>r\<bar>)) v = Fin m"
        "max a \<bar>r\<bar> \<le> m" "\<forall>r. Fin r \<in> set v \<longrightarrow> \<bar>r\<bar> \<le> m" by blast
      have "foldl (\<lambda>acc v. std_max acc (f32_abs v)) (Fin a) (x # v) = Fin m" by (simp add: s m(1))
      moreover have "a \<le> m" using m(2) by simp
      moreover have "\<forall>r'. Fin r' \<in> set (x # v) \<longrightarrow> \<bar>r'\<bar> \<le> m" using m(2) m(3) Fin by auto
      ultimately show ?thesis by blast
    qed
  next
    case (Infty s)
    have "std_max (Fin a) (f32_abs x) = Infty False" by (simp add: Infty std_max_def)
    then show ?thesis by (simp add: max_abs_from_inf)
  next
    case NaN
    have s: "std_max (Fin a) (f32_abs x) = Fin a" by (simp add: NaN std_max_def)
    from Cons.IH [OF Cons.prems] show ?thesis
    proof
      assume "foldl (\<lambda>acc v. std_max acc (f32_abs v)) (Fin a) v = Infty False"
      then show ?thesis by (simp add: s)
    next
      assume "\<exists>m. foldl (\<lambda>acc v. std_max acc (f32_abs v)) (Fin a) v = Fin m
                 \<and> a \<le> m \<and> (\<forall>r. Fin r \<in> set v \<longrightarrow> \<bar>r\<bar> \<le> m)"
      then obtain m where m: "foldl (\<lambda>acc v. std_max acc (f32_abs v)) (Fin a) v = Fin m"
        "a \<le> m" "\<forall>r. Fin r \<in> set v \<longrightarrow> \<bar>r\<bar> \<le> m" by blast
      have "foldl (\<lambda>acc v. std_max acc (f32_abs v)) (Fin a) (x # v) = Fin m" by (simp add: s m(1))
      moreover have "\<forall>r'. Fin r' \<in> set (x # v) \<longrightarrow> \<bar>r'\<bar> \<le> m" using m(3) NaN by auto
      ultimately show ?thesis using m(2) by blast
    qed
  qed
qed

lemma max_abs_inf:
  assumes "Infty s \<in> set v"
  shows "foldl (\<lambda>acc v. std_max acc (f32_abs v)) (Fin a) v = Infty False"
  using assms
proof (induction v arbitrary: a)
  case Nil then show ?case by simp
next
  case (Cons x v)
  show ?case
  proof (cases x)
    case (Fin r)
    with Cons.prems have "Infty s \<in> set v" by auto
    from Cons.IH [OF this] show ?thesis by (simp add: Fin std_max_Fin)
  next
    case (Infty t)
    have "std_max (Fin a) (f32_abs x) = Infty False" by (simp add: Infty std_max_def)
    then show ?thesis by (simp add: max_abs_from_inf)
  next
    case NaN
    with Cons.prems have "Infty s \<in> set v" by auto
    from Cons.IH [OF this] show ?thesis by (simp add: NaN std_max_def)
  qed
qed

lemma max_abs_no_magnitude:
  assumes "\<forall>x\<in>set v. x = Fin 0 \<or> x = NaN"
  shows "foldl (\<lambda>acc v. std_max acc (f32_abs v)) (Fin 0) v = Fin 0"
  using assms
proof (induction v)
  case Nil show ?case by simp
next
  case (Cons x v)
  from Cons.prems have "x = Fin 0 \<or> x = NaN" by simp
  then have "std_max (Fin 0) (f32_abs x) = Fin 0" by (auto simp: std_max_def)
  with Cons show ?case by simp
qed

text \<open>The clamped value is a finite float between -127 and 127, whatever the product.\<close>

lemma clamp_finite:
  "\<exists>r. std_max (Fin (- 127)) (std_min (Fin 127) t) = Fin r \<and> - 127 \<le> r \<and> r \<le> 127"
  by (cases t) (auto simp: std_max_def std_min_def)

lemma clamp_Fin:
  "std_max (Fin (- 127)) (std_min (Fin 127) (Fin p)) = Fin (max (- 127) (min 127 p))"
  by (auto simp: std_max_def std_min_def)

lemma quantize_codes_range:
  assumes "c \<in> set (fst (quantize_vector_int8 v))"
  shows "- 127 \<le> c \<and> c \<le> 127"
proof -
  from assms obtain t where c: "c = round_int8 (std_max (Fin (- 127)) (std_min (Fin 127) t))"
    unfolding quantize_vector_int8_def Let_def by auto
  from clamp_finite [of t] obtain r where
    r: "std_max (Fin (- 127)) (std_min (Fin 127) t) = Fin r" "- 127 \<le> r" "r \<le> 127" by blast
  from c_round_range [OF r(2) r(3)] show ?thesis by (simp add: c r(1))
qed

lemma quantize_length: "length (fst (quantize_vector_int8 v)) = length v"
  by (simp add: quantize_vector_int8_def Let_def)

lemma quantize_scale_no_magnitude:
  assumes "\<forall>x\<in>set v. x = Fin 0 \<or> x = NaN"
  shows "snd (quantize_vector_int8 v) = Fin 1"
  by (simp add: quantize_vector_int8_def Let_def max_abs_no_magnitude [OF assms])

lemma quantize_scale_nonzero:
  assumes "x \<in> set v" and "x = Infty s \<or> (\<exists>r. x = Fin r \<and> 1 / 2 ^ 143 \<le> \<bar>r\<bar>)"
  shows "snd (quantize_vector_int8 v) \<noteq> Fin 0"
proof -
  define M where "M = foldl (\<lambda>acc v. std_max acc (f32_abs v)) (Fin 0) v"
  have sc: "snd (quantize_vector_int8 v) = (if f32_less (Fin 0) M then f32_div M (Fin 127) else Fin 1)"
    by (simp add: quantize_vector_int8_def Let_def M_def)
  from max_abs_cases [of 0 v] have "M = Infty False
     \<or> (\<exists>m. M = Fin m \<and> 0 \<le> m \<and> (\<forall>r. Fin r \<in> set v \<longrightarrow> \<bar>r\<bar> \<le> m))"
    unfolding M_def by simp
  then show ?thesis
  proof
    assume "M = Infty False"
    then show ?thesis by (simp add: sc)
  next
    assume "\<exists>m. M = Fin m \<and> 0 \<le> m \<and> (\<forall>r. Fin r \<in> set v \<longrightarrow> \<bar>r\<bar> \<le> m)"
    then obtain m where m: "M = Fin m" "0 \<le> m" "\<forall>r. Fin r \<in> set v \<longrightarrow> \<bar>r\<bar> \<le> m" by blast
    from assms(2) show ?thesis
    proof
      assume "x = Infty s"
      with assms(1) have "M = Infty False" unfolding M_def by (intro max_abs_inf [of s]) simp
      then show ?thesis by (simp add: sc)
    next
      assume "\<exists>r. x = Fin r \<and> 1 / 2 ^ 143 \<le> \<bar>r\<bar>"
      then obtain r where r: "x = Fin r" "1 / 2 ^ 143 \<le> \<bar>r\<bar>" by blast
      with assms(1) m(3) have "\<bar>r\<bar> \<le> m" by blast
      with r(2) have big: "1 / 2 ^ 143 \<le> m" by linarith
      then have pos: "0 < m" by (rule less_le_trans [rotated]) simp
      have "1 / 2 ^ 150 < \<bar>m / 127\<bar>"
      proof -
        have "(1::real) / 2 ^ 150 < 1 / 2 ^ 143 / 127" by simp
        also have "\<dots> \<le> m / 127" using big by (intro divide_right_mono) simp_all
        finally show ?thesis using pos by simp
      qed
      then have "f32_round (m / 127) \<noteq> Fin 0" by (rule f32_round_nonzero)
      then show ?thesis using pos by (simp add: sc m(1))
    qed
  qed
qed

text \<open>
  One component through quantisation and back, when the largest magnitude \<open>m\<close> of the
  vector lies between \<open>2^-119\<close> and \<open>2^127\<close>: none of the four operations overflows or
  leaves the normal range in a way that matters, and their errors add up to less than
  one ten-thousandth of the scale.
\<close>

lemma f32_round_overflow:
  assumes "2 ^ 128 \<le> \<bar>x\<bar>"
  shows "f32_round x = Infty (x < 0)"
proof -
  have "(2::real) powi 127 \<le> 2 ^ 128" by simp
  with assms have "2 powi 127 \<le> \<bar>x\<bar>" by linarith
  then have e: "f32_exponent \<bar>x\<bar> = 127" by (rule f32_exponent_high)
  have q: "f32_quantum x = 2 ^ 104" by (simp add: f32_quantum_def e)
  have n: "f32_near x = of_int (rne (x / 2 ^ 104)) * 2 ^ 104" by (simp add: f32_near_def q)
  have "2 ^ 24 \<le> \<bar>rne (x / 2 ^ 104)\<bar>"
  proof (cases "0 \<le> x")
    case True
    with assms have "(2::real) ^ 128 \<le> x" by simp
    then have "(2::real) ^ 24 \<le> x / 2 ^ 104" by (simp add: field_simps)
    then have "rne (of_int (2 ^ 24)) \<le> rne (x / 2 ^ 104)" by (intro rne_mono) simp
    then show ?thesis by (simp only: rne_of_int)
  next
    case False
    with assms have "x \<le> - ((2::real) ^ 128)" by simp
    then have "x / 2 ^ 104 \<le> - ((2::real) ^ 24)" by (simp add: field_simps)
    then have "rne (x / 2 ^ 104) \<le> rne (of_int (- (2 ^ 24)))" by (intro rne_mono) simp
    then show ?thesis by (simp only: rne_of_int)
  qed
  then have "(2::real) ^ 24 \<le> \<bar>real_of_int (rne (x / 2 ^ 104))\<bar>"
    by (metis of_int_abs of_int_le_iff of_int_numeral of_int_power)
  then have "(2::real) ^ 24 * 2 ^ 104 \<le> \<bar>real_of_int (rne (x / 2 ^ 104))\<bar> * 2 ^ 104"
    by (intro mult_right_mono) simp_all
  then have "(2::real) ^ 128 \<le> \<bar>f32_near x\<bar>" by (simp add: n abs_mult)
  then show ?thesis by (simp add: f32_round_def)
qed

lemma f32_quantum_le: "f32_quantum x \<le> 2 ^ 104"
proof -
  have "f32_exponent \<bar>x\<bar> - 23 \<le> 104" using f32_exponent_range(2) [of "\<bar>x\<bar>"] by simp
  then have "(2::real) powi (f32_exponent \<bar>x\<bar> - 23) \<le> 2 powi 104"
    by (intro power_int_increasing) simp_all
  then show ?thesis by (simp add: f32_quantum_def)
qed

lemma f32_round_finite_max:
  assumes "\<bar>x\<bar> \<le> 2 ^ 128 - 2 ^ 104"
  shows "f32_round x = Fin (f32_near x)"
proof -
  have "\<bar>f32_near x - x\<bar> \<le> 2 ^ 104 / 2"
    using f32_near_err [of x] f32_quantum_le [of x] by simp
  then have "\<bar>f32_near x\<bar> \<le> \<bar>x\<bar> + 2 ^ 104 / 2" by linarith
  also have "\<dots> \<le> 2 ^ 128 - 2 ^ 104 + 2 ^ 104 / 2" using assms by simp
  also have "\<dots> < (2::real) ^ 128" by simp
  finally show ?thesis by (simp add: f32_round_def)
qed

lemma clamp_lipschitz:
  fixes p R :: real
  assumes "\<bar>R\<bar> \<le> 127"
  shows "\<bar>max (- 127) (min 127 p) - R\<bar> \<le> \<bar>p - R\<bar>"
  using assms by (simp add: max_def min_def)

lemma roundtrip_component:
  fixes m r :: real
  assumes lo: "1 / 2 ^ 119 \<le> m" and hi: "m \<le> 2 ^ 127" and rm: "\<bar>r\<bar> \<le> m"
  defines "s \<equiv> f32_near (m / 127)"
    and "I \<equiv> f32_near (127 / m)"
  defines "p \<equiv> f32_near (r * I)"
  defines "c \<equiv> c_round (max (- 127) (min 127 p))"
  defines "out \<equiv> f32_near (real_of_int c * s)"
  shows "f32_round (m / 127) = Fin s" and "f32_round (127 / m) = Fin I"
    and "f32_round (r * I) = Fin p" and "f32_round (real_of_int c * s) = Fin out"
    and "0 < s" and "\<bar>s - m / 127\<bar> \<le> m / 127 / 2 ^ 24"
    and "\<bar>out - r\<bar> \<le> s / 2 + s / 10000"
    and "\<bar>real_of_int c - r / s\<bar> \<le> 1 / 2 + 1 / 10000"
proof -
  define a where "a = m / 127"
  define b where "b = 127 / m"
  define R where "R = r * b"
  define t where "t = max (- 127) (min 127 p)"
  have mp: "0 < m" using lo by (rule less_le_trans [rotated]) simp
  have ap: "0 < a" using mp by (simp add: a_def)
  have bp: "0 < b" using mp by (simp add: b_def)
  have ab: "a * b = 1" using mp by (simp add: a_def b_def)
  have mb: "m * b = 127" using mp by (simp add: b_def)
  have Ra: "R * a = r" using mp by (simp add: R_def a_def b_def)
  \<comment> \<open>the scale\<close>
  have a_lo: "1 / 2 ^ 126 \<le> a"
  proof -
    have "(1::real) / 2 ^ 126 \<le> 1 / 2 ^ 119 / 127" by simp
    also have "\<dots> \<le> m / 127" using lo by (intro divide_right_mono) simp_all
    finally show ?thesis by (simp add: a_def)
  qed
  have a_hi: "a \<le> 2 ^ 127"
  proof -
    have "a \<le> m" using mp by (simp add: a_def)
    with hi show ?thesis by simp
  qed
  have s_err: "\<bar>s - a\<bar> \<le> a / 2 ^ 24"
    using f32_near_err_normal [of a] a_lo ap by (simp add: s_def a_def)
  show rs: "f32_round (m / 127) = Fin s"
    unfolding s_def using a_hi ap by (intro f32_round_finite) (simp add: a_def)
  have s_lo: "a - a / 2 ^ 24 \<le> s" and s_hi: "s \<le> a + a / 2 ^ 24" using s_err by linarith+
  show sp: "0 < s"
  proof -
    have "a / 2 ^ 24 < a" using ap by simp
    with s_lo show ?thesis by linarith
  qed
  show "\<bar>s - m / 127\<bar> \<le> m / 127 / 2 ^ 24" using s_err by (simp add: a_def)
  have s_126: "1 / 2 ^ 126 \<le> s"
  proof -
    have "(1::real) / 2 ^ 126 \<le> (1 / 2 ^ 119 / 127) * (1 - 1 / 2 ^ 24)" by simp
    also have "\<dots> \<le> a * (1 - 1 / 2 ^ 24)"
      using lo by (intro mult_right_mono) (simp_all add: a_def divide_right_mono)
    also have "\<dots> = a - a / 2 ^ 24" by (simp add: algebra_simps)
    also have "\<dots> \<le> s" by (rule s_lo)
    finally show ?thesis .
  qed
  \<comment> \<open>the inverse scale\<close>
  have b_lo: "1 / 2 ^ 126 \<le> b"
  proof -
    have "(1::real) / 2 ^ 126 \<le> 127 / 2 ^ 127" by simp
    also have "\<dots> \<le> 127 / m" using hi mp by (intro divide_left_mono) simp_all
    finally show ?thesis by (simp add: b_def)
  qed
  have b_hi: "b \<le> 2 ^ 127"
  proof -
    have "127 / m \<le> 127 / (1 / 2 ^ 119)" using lo by (intro divide_left_mono) simp_all
    also have "\<dots> \<le> (2::real) ^ 127" by simp
    finally show ?thesis by (simp add: b_def)
  qed
  have I_err: "\<bar>I - b\<bar> \<le> b / 2 ^ 24"
    using f32_near_err_normal [of b] b_lo bp by (simp add: I_def b_def)
  show "f32_round (127 / m) = Fin I"
    unfolding I_def using b_hi bp by (intro f32_round_finite) (simp add: b_def)
  \<comment> \<open>the product\<close>
  have R127: "\<bar>R\<bar> \<le> 127"
  proof -
    have "\<bar>R\<bar> = \<bar>r\<bar> * b" using bp by (simp add: R_def abs_mult)
    also have "\<dots> \<le> m * b" using rm bp by (intro mult_right_mono) simp_all
    finally show ?thesis by (simp add: mb)
  qed
  have x_R: "\<bar>r * I - R\<bar> \<le> 127 / 2 ^ 24"
  proof -
    have "r * I - R = r * (I - b)" by (simp add: R_def algebra_simps)
    then have "\<bar>r * I - R\<bar> = \<bar>r\<bar> * \<bar>I - b\<bar>" by (simp add: abs_mult)
    also have "\<dots> \<le> m * (b / 2 ^ 24)" using rm I_err mp by (intro mult_mono) simp_all
    also have "\<dots> = 127 / 2 ^ 24" using mb by simp
    finally show ?thesis .
  qed
  have x_abs: "\<bar>r * I\<bar> \<le> 127 + 127 / 2 ^ 24" using x_R R127 by linarith
  show "f32_round (r * I) = Fin p"
    unfolding p_def using x_abs by (intro f32_round_finite) simp
  have p_x: "\<bar>p - r * I\<bar> \<le> (127 + 127 / 2 ^ 24) / 2 ^ 24 + 1 / 2 ^ 150"
  proof -
    have "\<bar>p - r * I\<bar> \<le> \<bar>r * I\<bar> / 2 ^ 24 + 1 / 2 ^ 150"
      unfolding p_def by (rule f32_near_err_any)
    moreover have "\<bar>r * I\<bar> / 2 ^ 24 \<le> (127 + 127 / 2 ^ 24) / 2 ^ 24"
      using x_abs by (intro divide_right_mono) simp_all
    ultimately show ?thesis by linarith
  qed
  have p_R: "\<bar>p - R\<bar> \<le> (127 + 127 / 2 ^ 24) / 2 ^ 24 + 1 / 2 ^ 150 + 127 / 2 ^ 24"
    using p_x x_R by linarith
  \<comment> \<open>clamping and rounding to the code\<close>
  have t_R: "\<bar>t - R\<bar> \<le> (127 + 127 / 2 ^ 24) / 2 ^ 24 + 1 / 2 ^ 150 + 127 / 2 ^ 24"
    using clamp_lipschitz [OF R127, of p] p_R unfolding t_def by linarith
  have c_t: "\<bar>real_of_int c - t\<bar> \<le> 1 / 2" unfolding c_def t_def by (rule c_round_err)
  have c127: "\<bar>real_of_int c\<bar> \<le> 127"
  proof -
    have "- 127 \<le> t" "t \<le> 127" unfolding t_def by simp_all
    from c_round_range [OF this] have "- 127 \<le> c" "c \<le> 127" unfolding c_def t_def by simp_all
    then show ?thesis by simp
  qed
  \<comment> \<open>the reconstruction\<close>
  have y_abs: "\<bar>real_of_int c * s\<bar> \<le> 127 * s"
  proof -
    have "\<bar>real_of_int c * s\<bar> = \<bar>real_of_int c\<bar> * s" using sp by (simp add: abs_mult)
    also have "\<dots> \<le> 127 * s" using c127 sp by (intro mult_right_mono) simp_all
    finally show ?thesis .
  qed
  have s127: "127 * s \<le> 2 ^ 128 - 2 ^ 104"
  proof -
    have "127 * s \<le> 127 * (a + a / 2 ^ 24)" using s_hi by simp
    also have "\<dots> = m + m / 2 ^ 24" by (simp add: a_def)
    also have "\<dots> \<le> 2 ^ 127 + 2 ^ 127 / 2 ^ 24" using hi by (intro add_mono divide_right_mono) simp_all
    also have "\<dots> \<le> (2::real) ^ 128 - 2 ^ 104" by simp
    finally show ?thesis .
  qed
  show "f32_round (real_of_int c * s) = Fin out"
    unfolding out_def using y_abs s127 by (intro f32_round_finite_max) linarith
  have o_y: "\<bar>out - real_of_int c * s\<bar> \<le> 127 * s / 2 ^ 24 + 1 / 2 ^ 150"
  proof -
    have "\<bar>out - real_of_int c * s\<bar> \<le> \<bar>real_of_int c * s\<bar> / 2 ^ 24 + 1 / 2 ^ 150"
      unfolding out_def by (rule f32_near_err_any)
    moreover have "\<bar>real_of_int c * s\<bar> / 2 ^ 24 \<le> 127 * s / 2 ^ 24"
      using y_abs by (intro divide_right_mono) simp_all
    ultimately show ?thesis by linarith
  qed
  have T2: "\<bar>real_of_int c * (s - a)\<bar> \<le> 127 * (a / 2 ^ 24)"
  proof -
    have "\<bar>real_of_int c * (s - a)\<bar> = \<bar>real_of_int c\<bar> * \<bar>s - a\<bar>" by (simp add: abs_mult)
    also have "\<dots> \<le> 127 * (a / 2 ^ 24)" using c127 s_err by (intro mult_mono) simp_all
    finally show ?thesis .
  qed
  have T3: "\<bar>(real_of_int c - t) * a\<bar> \<le> 1 / 2 * a"
  proof -
    have "\<bar>(real_of_int c - t) * a\<bar> = \<bar>real_of_int c - t\<bar> * a" using ap by (simp add: abs_mult)
    also have "\<dots> \<le> 1 / 2 * a" using c_t ap by (intro mult_right_mono) simp_all
    finally show ?thesis .
  qed
  have T4: "\<bar>(t - R) * a\<bar> \<le> ((127 + 127 / 2 ^ 24) / 2 ^ 24 + 1 / 2 ^ 150 + 127 / 2 ^ 24) * a"
  proof -
    have "\<bar>(t - R) * a\<bar> = \<bar>t - R\<bar> * a" using ap by (simp add: abs_mult)
    also have "\<dots> \<le> ((127 + 127 / 2 ^ 24) / 2 ^ 24 + 1 / 2 ^ 150 + 127 / 2 ^ 24) * a"
      using t_R ap by (intro mult_right_mono) simp_all
    finally show ?thesis .
  qed
  have split: "out - r = (out - real_of_int c * s) + real_of_int c * (s - a)
                 + (real_of_int c - t) * a + (t - R) * a"
    by (simp add: Ra [symmetric] algebra_simps)
  have tri: "\<bar>out - r\<bar> \<le> \<bar>out - real_of_int c * s\<bar> + \<bar>real_of_int c * (s - a)\<bar>
                 + \<bar>(real_of_int c - t) * a\<bar> + \<bar>(t - R) * a\<bar>"
    unfolding split by linarith
  have a_s: "a * (1 - 1 / 2 ^ 24) \<le> s" using s_lo by (simp add: algebra_simps)
  show "\<bar>out - r\<bar> \<le> s / 2 + s / 10000"
    using tri o_y T2 T3 T4 a_s s_126 ap sp by simp
  have d: "\<bar>R - r / s\<bar> \<le> 127 / (2 ^ 24 - 1)"
  proof -
    have "(R - r / s) * s = R * (s - a)" using sp by (simp add: Ra [symmetric] algebra_simps)
    then have "\<bar>(R - r / s) * s\<bar> = \<bar>R * (s - a)\<bar>" by simp
    then have "\<bar>R - r / s\<bar> * \<bar>s\<bar> = \<bar>R\<bar> * \<bar>s - a\<bar>" by (simp only: abs_mult)
    then have "\<bar>R - r / s\<bar> * s = \<bar>R\<bar> * \<bar>s - a\<bar>" using sp by simp
    also have "\<dots> \<le> 127 * (a / 2 ^ 24)" using R127 s_err by (intro mult_mono) simp_all
    also have "\<dots> \<le> 127 / (2 ^ 24 - 1) * s" using a_s by simp
    finally show ?thesis using sp by (simp only: mult_le_cancel_right_pos)
  qed
  have "real_of_int c - r / s = (real_of_int c - t) + (t - R) + (R - r / s)" by simp
  then have "\<bar>real_of_int c - r / s\<bar> \<le> \<bar>real_of_int c - t\<bar> + \<bar>t - R\<bar> + \<bar>R - r / s\<bar>"
    by linarith
  then show "\<bar>real_of_int c - r / s\<bar> \<le> 1 / 2 + 1 / 10000"
    using c_t t_R d by simp
qed

lemma max_abs_Max:
  assumes "rs \<noteq> []"
  shows "foldl (\<lambda>acc v. max acc \<bar>v\<bar>) 0 (rs :: real list) = Max (abs ` set rs)"
proof -
  from assms obtain x where x: "x \<in> set rs" by (cases rs) auto
  then have ne: "abs ` set rs \<noteq> {}" by auto
  have fin: "finite (abs ` set rs)" by simp
  have "\<bar>x\<bar> \<in> abs ` set rs" using x by (rule imageI)
  with fin have "\<bar>x\<bar> \<le> Max (abs ` set rs)" by (rule Max_ge)
  then have "0 \<le> Max (abs ` set rs)" by linarith
  then have m: "max 0 (Max (abs ` set rs)) = Max (abs ` set rs)" by (rule max_absorb2)
  have "foldl (\<lambda>acc v. max acc \<bar>v\<bar>) 0 rs = Max (insert 0 (abs ` set rs))"
    by (rule foldl_max_abs_Max)
  also have "\<dots> = max 0 (Max (abs ` set rs))" by (rule Max_insert [OF fin ne])
  finally show ?thesis unfolding m .
qed

lemma f32_round_0 [simp]: "f32_round 0 = Fin 0"
  by (simp add: f32_round_def)

lemma quantize_all_zero:
  assumes "\<forall>r\<in>set rs. r = 0"
  shows "quantize_vector_int8 (map Fin rs) = (map (\<lambda>r. 0) rs, Fin 1)"
    and "dequantize_vector_int8 (map (\<lambda>r. 0) rs) (Fin 1) = map Fin rs"
proof -
  have z: "foldl (\<lambda>acc v. max acc \<bar>v\<bar>) 0 rs = 0" using assms by (intro foldl_max_abs_zero) simp_all
  have "map (\<lambda>v. round_int8 (std_max (Fin (- 127)) (std_min (Fin 127) (f32_mul v (Fin 0)))))
          (map Fin rs) = map (\<lambda>r. 0) rs"
    by (simp add: clamp_Fin c_round_def)
  then show "quantize_vector_int8 (map Fin rs) = (map (\<lambda>r. 0) rs, Fin 1)"
    by (simp add: quantize_vector_int8_def Let_def max_abs_finite z)
  show "dequantize_vector_int8 (map (\<lambda>r. 0) rs) (Fin 1) = map Fin rs"
    using assms by (simp add: dequantize_vector_int8_def)
qed

lemma quantize_in_range:
  fixes rs :: "real list"
  defines "m \<equiv> foldl (\<lambda>acc v. max acc \<bar>v\<bar>) 0 rs"
  assumes lo: "1 / 2 ^ 119 \<le> m" and hi: "m \<le> 2 ^ 127"
  shows "\<exists>s. snd (quantize_vector_int8 (map Fin rs)) = Fin s
           \<and> Fin s = f32_round (m / 127) \<and> 0 < s \<and> \<bar>s - m / 127\<bar> \<le> m / 127 / 2 ^ 24
           \<and> (\<forall>i<length rs.
                 fst (quantize_vector_int8 (map Fin rs)) ! i
                   = c_round (max (- 127) (min 127 (f32_near (rs ! i * f32_near (127 / m)))))
               \<and> \<bar>real_of_int (fst (quantize_vector_int8 (map Fin rs)) ! i) - rs ! i / s\<bar>
                   \<le> 1 / 2 + 1 / 10000
               \<and> (\<exists>out. dequantize_vector_int8 (fst (quantize_vector_int8 (map Fin rs))) (Fin s) ! i
                            = Fin out
                        \<and> Fin out
                            = f32_round (real_of_int (fst (quantize_vector_int8 (map Fin rs)) ! i) * s)
                        \<and> \<bar>out - rs ! i\<bar> \<le> s / 2 + s / 10000))"
proof -
  define s where "s = f32_near (m / 127)"
  define I where "I = f32_near (127 / m)"
  have mp: "0 < m" using lo by (rule less_le_trans [rotated]) simp
  have mm: "\<bar>m\<bar> \<le> m" using mp by simp
  note c0 = roundtrip_component [OF lo hi mm]
  have rs: "f32_round (m / 127) = Fin s" and rI: "f32_round (127 / m) = Fin I"
    unfolding s_def I_def by (rule c0(1), rule c0(2))
  have sp: "0 < s" unfolding s_def by (rule c0(5))
  have se: "\<bar>s - m / 127\<bar> \<le> m / 127 / 2 ^ 24" unfolding s_def by (rule c0(6))
  have q: "quantize_vector_int8 (map Fin rs)
      = (map (\<lambda>v. round_int8 (std_max (Fin (- 127)) (std_min (Fin 127) (f32_mul v (Fin I)))))
           (map Fin rs), Fin s)"
    using mp by (simp add: quantize_vector_int8_def Let_def max_abs_finite m_def [symmetric] rs rI)
  have comp: "fst (quantize_vector_int8 (map Fin rs)) ! i
                   = c_round (max (- 127) (min 127 (f32_near (rs ! i * f32_near (127 / m)))))
               \<and> \<bar>real_of_int (fst (quantize_vector_int8 (map Fin rs)) ! i) - rs ! i / s\<bar>
                   \<le> 1 / 2 + 1 / 10000
               \<and> (\<exists>out. dequantize_vector_int8 (fst (quantize_vector_int8 (map Fin rs))) (Fin s) ! i
                            = Fin out
                        \<and> Fin out
                            = f32_round (real_of_int (fst (quantize_vector_int8 (map Fin rs)) ! i) * s)
                        \<and> \<bar>out - rs ! i\<bar> \<le> s / 2 + s / 10000)" if i: "i < length rs" for i
  proof -
    define r where "r = rs ! i"
    have "r \<in> set rs" using i by (simp add: r_def)
    then have rm: "\<bar>r\<bar> \<le> m" unfolding m_def by (rule foldl_max_abs_upper)
    define p where "p = f32_near (r * I)"
    define c where "c = c_round (max (- 127) (min 127 p))"
    define out where "out = f32_near (real_of_int c * s)"
    note c1 = roundtrip_component [OF lo hi rm]
    have rp: "f32_round (r * I) = Fin p" unfolding p_def I_def by (rule c1(3))
    have ro: "f32_round (real_of_int c * s) = Fin out"
      unfolding out_def c_def p_def I_def s_def by (rule c1(4))
    have e1: "\<bar>out - r\<bar> \<le> s / 2 + s / 10000"
      unfolding out_def c_def p_def I_def s_def by (rule c1(7))
    have e2: "\<bar>real_of_int c - r / s\<bar> \<le> 1 / 2 + 1 / 10000"
      unfolding c_def p_def I_def s_def by (rule c1(8))
    have ci: "fst (quantize_vector_int8 (map Fin rs)) ! i = c"
      using i by (simp add: q r_def [symmetric] rp clamp_Fin c_def)
    have di: "dequantize_vector_int8 (fst (quantize_vector_int8 (map Fin rs))) (Fin s) ! i = Fin out"
      using i ci by (simp add: dequantize_vector_int8_def quantize_length ro)
    have cf: "c = c_round (max (- 127) (min 127 (f32_near (rs ! i * f32_near (127 / m)))))"
      by (simp add: c_def p_def r_def I_def)
    show ?thesis using e1 e2 di ro [symmetric] cf unfolding ci r_def by blast
  qed
  have "snd (quantize_vector_int8 (map Fin rs)) = Fin s" by (simp add: q)
  with rs sp se comp show ?thesis by metis
qed

text \<open>Evaluating an operation at given operands, and the closed examples.\<close>

lemma f32_round_eval:
  assumes "- 126 \<le> e" "e \<le> 127" "2 powi e \<le> \<bar>x\<bar>" "\<bar>x\<bar> < 2 powi (e + 1)"
    and "y = of_int (rne (x / 2 powi (e - 23))) * 2 powi (e - 23)" and "\<bar>y\<bar> < 2 ^ 128"
  shows "f32_round x = Fin y"
proof -
  have "f32_exponent \<bar>x\<bar> = e" using assms(1-4) by (rule f32_exponent_eq)
  then have "f32_near x = y" by (simp add: f32_near_def f32_quantum_def assms(5))
  with assms(6) show ?thesis by (simp add: f32_round_def)
qed

lemma f32_round_eval_low:
  assumes "\<bar>x\<bar> < 1 / 2 ^ 126" and "y = of_int (rne (x * 2 ^ 149)) / 2 ^ 149"
  shows "f32_round x = Fin y"
proof -
  have q: "f32_quantum x = 1 / 2 ^ 149" using assms(1) by (rule f32_quantum_subnormal)
  have n: "f32_near x = y" by (simp add: f32_near_def q assms(2))
  have "\<bar>f32_near x\<bar> \<le> \<bar>x\<bar> + \<bar>f32_near x - x\<bar>" by linarith
  also have "\<dots> \<le> 1 / 2 ^ 126 + 1 / 2 ^ 149 / 2" using assms(1) f32_near_err [of x] q by simp
  also have "\<dots> < (2::real) ^ 128" by simp
  finally show ?thesis by (simp add: f32_round_def n [symmetric])
qed

lemma ex9_scale: "f32_round (9 / 127) = Fin (9511493 / 134217728)"
  by (rule f32_round_eval [where e = "- 4"]) (simp_all add: rne_def)

lemma ex9_inv: "f32_round (127 / 9) = Fin (3699143 / 262144)"
  by (rule f32_round_eval [where e = 3]) (simp_all add: rne_def)

lemma ex9_prod1: "f32_round (9 * (3699143 / 262144)) = Fin 127"
  by (rule f32_round_eval [where e = 6]) (simp_all add: rne_def)

lemma ex9_prod2: "f32_round (9 / 2 * (3699143 / 262144)) = Fin (127 / 2)"
  by (rule f32_round_eval [where e = 5]) (simp_all add: rne_def)

lemma ex9_out1: "f32_round (127 * (9511493 / 134217728)) = Fin 9"
  by (rule f32_round_eval [where e = 3]) (simp_all add: rne_def)

lemma ex9_out2: "f32_round (64 * (9511493 / 134217728)) = Fin (9511493 / 2097152)"
  by (rule f32_round_eval [where e = 2]) (simp_all add: rne_def)

lemma ex9_quantize:
  "quantize_vector_int8 [Fin 9, Fin (9 / 2)] = ([127, 64], Fin (9511493 / 134217728))"
  using ex9_scale ex9_inv ex9_prod1 ex9_prod2
  by (simp add: quantize_vector_int8_def Let_def std_max_def std_min_def c_round_def)

lemma ex9_dequantize:
  "dequantize_vector_int8 [127, 64] (Fin (9511493 / 134217728)) = [Fin 9, Fin (9511493 / 2097152)]"
  using ex9_out1 ex9_out2 by (simp add: dequantize_vector_int8_def)

lemma ex30_scale: "f32_round (30 / 127) = Fin (1981561 / 8388608)"
  by (rule f32_round_eval [where e = "- 3"]) (simp_all add: rne_def)

lemma ex30_inv: "f32_round (127 / 30) = Fin (8877943 / 2097152)"
  by (rule f32_round_eval [where e = 2]) (simp_all add: rne_def)

lemma ex30_prod1: "f32_round (30 * (8877943 / 2097152)) = Fin (16646143 / 131072)"
  by (rule f32_round_eval [where e = 6]) (simp_all add: rne_def)

lemma ex30_prod2: "f32_round (15 * (8877943 / 2097152)) = Fin (16646143 / 262144)"
  by (rule f32_round_eval [where e = 5]) (simp_all add: rne_def)

lemma ex30_quantize:
  "quantize_vector_int8 [Fin 30, Fin 15] = ([127, 63], Fin (1981561 / 8388608))"
  using ex30_scale ex30_inv ex30_prod1 ex30_prod2
  by (simp add: quantize_vector_int8_def Let_def std_max_def std_min_def c_round_def)

lemma tiny_scale: "f32_round (1 / 2 ^ 149 / 127) = Fin 0"
  by (rule f32_round_eval_low) (simp_all add: rne_def)

lemma tiny_inv: "f32_round (127 * 2 ^ 149) = Infty False"
  using f32_round_overflow [of "127 * 2 ^ 149"] by simp

lemma tiny_quantize:
  "quantize_vector_int8 [Fin (1 / 2 ^ 149), Fin 0] = ([127, 127], Fin 0)"
  using tiny_scale tiny_inv
  by (simp add: quantize_vector_int8_def Let_def std_max_def std_min_def c_round_def)

lemma tiny_dequantize: "dequantize_vector_int8 [127, 127] (Fin 0) = [Fin 0, Fin 0]"
  by (simp add: dequantize_vector_int8_def)

lemma ex1_scale: "f32_round (1 / 127) = Fin (2113665 / 268435456)"
  by (rule f32_round_eval [where e = "- 7"]) (simp_all add: rne_def)

lemma ex1_inv: "f32_round 127 = Fin 127"
  by (rule f32_round_eval [where e = 6]) (simp_all add: rne_def)

lemma ex1_prod2: "f32_round (- (127 / 2)) = Fin (- (127 / 2))"
  by (rule f32_round_eval [where e = 5]) (simp_all add: rne_def)

lemma ex1_prod3: "f32_round (127 / 4) = Fin (127 / 4)"
  by (rule f32_round_eval [where e = 4]) (simp_all add: rne_def)

lemma ex1_out1: "f32_round (127 * (2113665 / 268435456)) = Fin 1"
  by (rule f32_round_eval [where e = "- 1"]) (simp_all add: rne_def)

lemma ex1_out2: "f32_round (- (64 * (2113665 / 268435456))) = Fin (- (2113665 / 4194304))"
  by (rule f32_round_eval [where e = "- 1"]) (simp_all add: rne_def)

lemma ex1_out3: "f32_round (32 * (2113665 / 268435456)) = Fin (2113665 / 8388608)"
  by (rule f32_round_eval [where e = "- 2"]) (simp_all add: rne_def)

lemma ex1_quantize:
  "quantize_vector_int8 [Fin 1, Fin (- (1 / 2)), Fin (1 / 4)]
     = ([127, - 64, 32], Fin (2113665 / 268435456))"
  using ex1_scale ex1_inv ex1_prod2 ex1_prod3
  by (simp add: quantize_vector_int8_def Let_def std_max_def std_min_def c_round_def)

lemma ex1_dequantize:
  "dequantize_vector_int8 [127, - 64, 32] (Fin (2113665 / 268435456))
     = [Fin 1, Fin (- (2113665 / 4194304)), Fin (2113665 / 8388608)]"
  using ex1_out1 ex1_out2 ex1_out3 by (simp add: dequantize_vector_int8_def)

text \<open>
  Claim C5, as amended.  The claim says that the scale returned by
  \<open>quantize_vector_int8\<close> is 0 exactly for the all-zero vector.  For the all-zero vector
  the source returns 1.0 (line 111: the quotient is taken only when the maximum is
  positive).  For every vector with a component that is infinite or of magnitude at
  least \<open>2^-143\<close> the returned scale is not 0.
\<close>

theorem quantize_scale_amended:
  "((\<forall>x\<in>set v. x = Fin 0) \<longrightarrow> snd (quantize_vector_int8 v) = Fin 1)
   \<and> ((\<exists>x\<in>set v. (\<exists>s. x = Infty s) \<or> (\<exists>r. x = Fin r \<and> 1 / 2 ^ 143 \<le> \<bar>r\<bar>))
         \<longrightarrow> snd (quantize_vector_int8 v) \<noteq> Fin 0)"
proof (intro conjI impI)
  assume "\<forall>x\<in>set v. x = Fin 0"
  then have "\<forall>x\<in>set v. x = Fin 0 \<or> x = NaN" by simp
  then show "snd (quantize_vector_int8 v) = Fin 1" by (rule quantize_scale_no_magnitude)
next
  assume "\<exists>x\<in>set v. (\<exists>s. x = Infty s) \<or> (\<exists>r. x = Fin r \<and> 1 / 2 ^ 143 \<le> \<bar>r\<bar>)"
  then obtain x where x: "x \<in> set v"
    and c: "(\<exists>s. x = Infty s) \<or> (\<exists>r. x = Fin r \<and> 1 / 2 ^ 143 \<le> \<bar>r\<bar>)" by blast
  from c show "snd (quantize_vector_int8 v) \<noteq> Fin 0"
  proof
    assume "\<exists>s. x = Infty s"
    then obtain s where "x = Infty s" ..
    then show ?thesis by (intro quantize_scale_nonzero [OF x, of s]) simp
  next
    assume "\<exists>r. x = Fin r \<and> 1 / 2 ^ 143 \<le> \<bar>r\<bar>"
    then show ?thesis by (intro quantize_scale_nonzero [OF x, of False]) simp
  qed
qed

text \<open>
  The all-zero vector of two components, a vector whose largest magnitude is \<open>2^-143\<close>
  and a vector with an infinite component.
\<close>

theorem quantize_scale_amended_witness:
  "snd (quantize_vector_int8 [Fin 0, Fin 0]) = Fin 1
   \<and> snd (quantize_vector_int8 [Fin (1 / 2 ^ 143), Fin 0]) \<noteq> Fin 0
   \<and> snd (quantize_vector_int8 [Fin 3, Infty True]) \<noteq> Fin 0"
proof -
  have a: "\<forall>x\<in>set [Fin 0, Fin 0]. x = Fin 0" by simp
  have b: "\<exists>x\<in>set [Fin (1 / 2 ^ 143), Fin 0].
             (\<exists>s. x = Infty s) \<or> (\<exists>r. x = Fin r \<and> 1 / 2 ^ 143 \<le> \<bar>r\<bar>)"
    by (intro bexI [of _ "Fin (1 / 2 ^ 143)"] disjI2 exI [of _ "1 / 2 ^ 143"]) simp_all
  have c: "\<exists>x\<in>set [Fin 3, Infty True].
             (\<exists>s. x = Infty s) \<or> (\<exists>r. x = Fin r \<and> 1 / 2 ^ 143 \<le> \<bar>r\<bar>)"
    by (intro bexI [of _ "Infty True"] disjI1 exI [of _ True]) simp_all
  from quantize_scale_amended [of "[Fin 0, Fin 0]", THEN conjunct1, THEN mp, OF a]
    quantize_scale_amended [of "[Fin (1 / 2 ^ 143), Fin 0]", THEN conjunct2, THEN mp, OF b]
    quantize_scale_amended [of "[Fin 3, Infty True]", THEN conjunct2, THEN mp, OF c]
  show ?thesis by blast
qed

text \<open>
  Claim C5 as stated fails in both directions.  The vector of two zeros has scale 1, not
  0.  The vector \<open>(2^-149, 0)\<close> is not all-zero and has scale 0: the quotient
  \<open>2^-149 / 127\<close> rounds to zero.
\<close>

theorem quantize_scale_counterexample:
  "\<not> (snd (quantize_vector_int8 [Fin 0, Fin 0]) = Fin 0 \<longleftrightarrow> (\<forall>x\<in>set [Fin 0, Fin 0]. x = Fin 0))
   \<and> \<not> (snd (quantize_vector_int8 [Fin (1 / 2 ^ 149), Fin 0]) = Fin 0
          \<longleftrightarrow> (\<forall>x\<in>set [Fin (1 / 2 ^ 149), Fin 0]. x = Fin 0))"
proof -
  have "snd (quantize_vector_int8 [Fin 0, Fin 0]) = Fin 1"
    by (simp add: quantize_vector_int8_def Let_def std_max_def)
  moreover have "snd (quantize_vector_int8 [Fin (1 / 2 ^ 149), Fin 0]) = Fin 0"
    using tiny_scale by (simp add: quantize_vector_int8_def Let_def std_max_def)
  ultimately show ?thesis by simp
qed

text \<open>
  Claim C6, as amended.  For every vector there are as many codes as components, each
  between -127 and 127.  For a vector of finite floats: the all-zero vector gets scale
  1.0 and codes 0, and is reconstructed exactly; and when the largest magnitude \<open>M\<close>
  lies between \<open>2^-119\<close> and \<open>2^127\<close>, the scale is the float nearest to \<open>M / 127\<close>
  (within \<open>2^-24\<close> of it, relatively), every code is within \<open>1/2 + 1/10000\<close> of
  \<open>v_i / scale\<close>, and every reconstructed component, the float nearest to
  \<open>codes_i * scale\<close>, is within \<open>scale / 2 + scale / 10000\<close> of \<open>v_i\<close>.  The source computes
  a code as \<open>round (clamp (v_i * (127 / M)))\<close> in binary32, where the claim divides by
  the scale.
\<close>

theorem quantize_int8_amended:
  "(\<forall>c\<in>set (fst (quantize_vector_int8 v)). - 127 \<le> c \<and> c \<le> 127)
   \<and> length (fst (quantize_vector_int8 v)) = length v
   \<and> ((\<forall>r\<in>set rs. r = 0) \<longrightarrow>
         quantize_vector_int8 (map Fin rs) = (map (\<lambda>r. 0) rs, Fin 1)
         \<and> dequantize_vector_int8 (map (\<lambda>r. 0) rs) (Fin 1) = map Fin rs)
   \<and> (rs \<noteq> [] \<and> 1 / 2 ^ 119 \<le> Max (abs ` set rs) \<and> Max (abs ` set rs) \<le> 2 ^ 127 \<longrightarrow>
        (\<exists>s. snd (quantize_vector_int8 (map Fin rs)) = Fin s
           \<and> Fin s = f32_round (Max (abs ` set rs) / 127) \<and> 0 < s
           \<and> \<bar>s - Max (abs ` set rs) / 127\<bar> \<le> Max (abs ` set rs) / 127 / 2 ^ 24
           \<and> (\<forall>i<length rs.
                 fst (quantize_vector_int8 (map Fin rs)) ! i
                   = c_round (max (- 127) (min 127 (f32_near (rs ! i * f32_near (127 / Max (abs ` set rs))))))
               \<and> \<bar>real_of_int (fst (quantize_vector_int8 (map Fin rs)) ! i) - rs ! i / s\<bar>
                   \<le> 1 / 2 + 1 / 10000
               \<and> (\<exists>out. dequantize_vector_int8 (fst (quantize_vector_int8 (map Fin rs))) (Fin s) ! i
                            = Fin out
                        \<and> Fin out
                            = f32_round (real_of_int (fst (quantize_vector_int8 (map Fin rs)) ! i) * s)
                        \<and> \<bar>out - rs ! i\<bar> \<le> s / 2 + s / 10000))))"
proof (intro conjI impI ballI)
  fix c assume "c \<in> set (fst (quantize_vector_int8 v))"
  then have "- 127 \<le> c \<and> c \<le> 127" by (rule quantize_codes_range)
  then show "- 127 \<le> c" and "c \<le> 127" by simp_all
next
  show "length (fst (quantize_vector_int8 v)) = length v" by (rule quantize_length)
next
  assume z: "\<forall>r\<in>set rs. r = 0"
  show "quantize_vector_int8 (map Fin rs) = (map (\<lambda>r. 0) rs, Fin 1)"
    by (rule quantize_all_zero(1) [OF z])
  show "dequantize_vector_int8 (map (\<lambda>r. 0) rs) (Fin 1) = map Fin rs"
    by (rule quantize_all_zero(2) [OF z])
next
  assume a: "rs \<noteq> [] \<and> 1 / 2 ^ 119 \<le> Max (abs ` set rs) \<and> Max (abs ` set rs) \<le> 2 ^ 127"
  then have m: "foldl (\<lambda>acc v. max acc \<bar>v\<bar>) 0 rs = Max (abs ` set rs)" by (intro max_abs_Max) simp
  from a have lo: "1 / 2 ^ 119 \<le> foldl (\<lambda>acc v. max acc \<bar>v\<bar>) 0 rs"
    and hi: "foldl (\<lambda>acc v. max acc \<bar>v\<bar>) 0 rs \<le> 2 ^ 127" by (simp_all add: m)
  from quantize_in_range [OF lo hi]
  show "\<exists>s. snd (quantize_vector_int8 (map Fin rs)) = Fin s
           \<and> Fin s = f32_round (Max (abs ` set rs) / 127) \<and> 0 < s
           \<and> \<bar>s - Max (abs ` set rs) / 127\<bar> \<le> Max (abs ` set rs) / 127 / 2 ^ 24
           \<and> (\<forall>i<length rs.
                 fst (quantize_vector_int8 (map Fin rs)) ! i
                   = c_round (max (- 127) (min 127 (f32_near (rs ! i * f32_near (127 / Max (abs ` set rs))))))
               \<and> \<bar>real_of_int (fst (quantize_vector_int8 (map Fin rs)) ! i) - rs ! i / s\<bar>
                   \<le> 1 / 2 + 1 / 10000
               \<and> (\<exists>out. dequantize_vector_int8 (fst (quantize_vector_int8 (map Fin rs))) (Fin s) ! i
                            = Fin out
                        \<and> Fin out
                            = f32_round (real_of_int (fst (quantize_vector_int8 (map Fin rs)) ! i) * s)
                        \<and> \<bar>out - rs ! i\<bar> \<le> s / 2 + s / 10000))"
    unfolding m .
qed

text \<open>The vector of two zeros, and the vector \<open>(1, -1/2, 1/4)\<close>.\<close>

theorem quantize_int8_amended_witness:
  "quantize_vector_int8 [Fin 0, Fin 0] = ([0, 0], Fin 1)
   \<and> dequantize_vector_int8 [0, 0] (Fin 1) = [Fin 0, Fin 0]
   \<and> 1 / 2 ^ 119 \<le> Max (abs ` set [1, - (1 / 2), 1 / 4 :: real])
   \<and> Max (abs ` set [1, - (1 / 2), 1 / 4 :: real]) \<le> 2 ^ 127
   \<and> quantize_vector_int8 [Fin 1, Fin (- (1 / 2)), Fin (1 / 4)]
        = ([127, - 64, 32], Fin (2113665 / 268435456))
   \<and> dequantize_vector_int8 [127, - 64, 32] (Fin (2113665 / 268435456))
        = [Fin 1, Fin (- (2113665 / 4194304)), Fin (2113665 / 8388608)]
   \<and> \<bar>- (2113665 / 4194304) - (- (1 / 2))\<bar>
        \<le> 2113665 / 268435456 / 2 + 2113665 / 268435456 / (10000 :: real)
   \<and> \<bar>- 64 - (- (1 / 2)) / (2113665 / 268435456)\<bar> \<le> 1 / 2 + 1 / (10000 :: real)"
  using quantize_int8_amended [of "[Fin 0, Fin 0]" "[0, 0]"]
    quantize_int8_amended [of "[Fin 1, Fin (- (1 / 2)), Fin (1 / 4)]" "[1, - (1 / 2), 1 / 4]"]
  by (simp add: ex1_quantize ex1_dequantize)

text \<open>
  Claim C6 as stated fails on the vector \<open>(9, 4.5)\<close>.  The scale is the float
  \<open>9511493 / 2^27\<close>, not \<open>9 / 127\<close>; the code of 4.5 is 64, where \<open>round (clamp (4.5 / scale))\<close>
  is 63; and the reconstruction \<open>64 * scale\<close> of 4.5 misses it by more than \<open>scale / 2\<close>.
  On \<open>(30, 15)\<close> the code of 15 is 63, where \<open>15 / (30 / 127)\<close> is 63.5 and rounds to 64.
  On \<open>(2^-149, 0)\<close>, below the range of the amended claim, the scale is 0, the quotient
  \<open>127 / 2^-149\<close> overflows, both codes are 127 and the first component is reconstructed
  as 0.
\<close>

theorem quantize_int8_counterexample:
  "quantize_vector_int8 [Fin 9, Fin (9 / 2)] = ([127, 64], Fin (9511493 / 134217728))
   \<and> (9511493 / 134217728 :: real) \<noteq> 9 / 127
   \<and> c_round (max (- 127) (min 127 (9 / 2 / (9511493 / 134217728)))) \<noteq> 64
   \<and> dequantize_vector_int8 [127, 64] (Fin (9511493 / 134217728))
        = [Fin 9, Fin (9511493 / 2097152)]
   \<and> \<not> \<bar>9511493 / 2097152 - 9 / 2\<bar> \<le> 9511493 / 134217728 / (2 :: real)
   \<and> quantize_vector_int8 [Fin 30, Fin 15] = ([127, 63], Fin (1981561 / 8388608))
   \<and> c_round (max (- 127) (min 127 (15 / (30 / 127)))) = 64
   \<and> quantize_vector_int8 [Fin (1 / 2 ^ 149), Fin 0] = ([127, 127], Fin 0)
   \<and> dequantize_vector_int8 [127, 127] (Fin 0) = [Fin 0, Fin 0]
   \<and> \<not> \<bar>0 - 1 / 2 ^ 149\<bar> \<le> 0 / (2 :: real)"
  using ex9_quantize ex9_dequantize ex30_quantize tiny_quantize tiny_dequantize
  by (simp add: c_round_def)

section \<open>The registry: add and delete\<close>

text \<open>Unfolding the operations of the wrapper and of the reference primitive on closed terms.\<close>

lemmas ref_simps = ref_ops_def ref_create_def ref_addPoint_def ref_markDelete_def
  ref_resizeIndex_def ref_searchKnn_def inner_product_def

lemmas api_simps = hnsw_create_def hnsw_add_def hnsw_add_body_def hnsw_delete_def on_hnsw_def
  normalize_vector_def u64_def resize_def Let_def assigned_def

text \<open>
  Claim C9.  For an identifier that has no live label (no entry in \<open>id_to_label\<close>),
  \<open>hnsw_delete\<close> returns 0 and the index after the call is the index before it:
  registry, library state and \<open>modified\<close> flag are unchanged, and no operation of the
  library is called (the result does not depend on \<open>ops\<close>).
\<close>

theorem delete_absent_noop:
  "id_to_label idx ident = None \<Longrightarrow> hnsw_delete ops (Some idx) (Some ident) = (0, Some idx)"
  by (simp add: hnsw_delete_def)

theorem delete_absent_noop_witness:
  "id_to_label \<lparr>hnsw = \<lparr>ref_dim = 2, ref_capacity = 4, ref_points = [(0, [1, 0])],
                        ref_deleted = [], ref_ef = 50\<rparr>,
                 id_to_label = [''a'' \<mapsto> 0], label_to_id = [''a''], path = ''p'',
                 dimension = 2, max_elements = 4, next_label = 1, modified = False,
                 precision = 0\<rparr> ''b'' = None
   \<and> hnsw_delete ref_ops
        (Some \<lparr>hnsw = \<lparr>ref_dim = 2, ref_capacity = 4, ref_points = [(0, [1, 0])],
                        ref_deleted = [], ref_ef = 50\<rparr>,
                 id_to_label = [''a'' \<mapsto> 0], label_to_id = [''a''], path = ''p'',
                 dimension = 2, max_elements = 4, next_label = 1, modified = False,
                 precision = 0\<rparr>) (Some ''b'')
     = (0, Some \<lparr>hnsw = \<lparr>ref_dim = 2, ref_capacity = 4, ref_points = [(0, [1, 0])],
                        ref_deleted = [], ref_ef = 50\<rparr>,
                 id_to_label = [''a'' \<mapsto> 0], label_to_id = [''a''], path = ''p'',
                 dimension = 2, max_elements = 4, next_label = 1, modified = False,
                 precision = 0\<rparr>)"
  using delete_absent_noop [of "\<lparr>hnsw = \<lparr>ref_dim = 2, ref_capacity = 4, ref_points = [(0, [1, 0])],
                        ref_deleted = [], ref_ef = 50\<rparr>,
                 id_to_label = [''a'' \<mapsto> 0], label_to_id = [''a''], path = ''p'',
                 dimension = 2, max_elements = 4, next_label = 1, modified = False,
                 precision = 0\<rparr>" "''b''" ref_ops]
  by simp

text \<open>
  What \<open>hnsw_add\<close> rejects: a null index, identifier or vector and a dimension other
  than that of the index give -1 and leave the index as it was.
\<close>

lemma hnsw_add_invalid_argument:
  assumes "index = None \<or> chunk_id_arg = None \<or> vector = None
           \<or> (\<exists>idx. index = Some idx \<and> dimension_arg \<noteq> dimension idx)"
  shows "hnsw_add ops index chunk_id_arg vector dimension_arg = (- 1, index)"
  using assms by (auto simp: hnsw_add_def split: option.splits)

text \<open>
  Claim C8 (the code differs).  The claim has \<open>hnsw_add\<close> reject the empty identifier
  with -1 and no change of state.  The source tests the pointer \<open>chunk_id\<close> against
  null only (line 486): on a fresh index of dimension 1 the call with the empty string
  returns 0, takes label 0, inserts the vector and sets \<open>modified\<close>.  The slot it writes
  holds the empty string, which is how the registry marks a deleted slot.
\<close>

theorem add_empty_identifier_accepted: "hnsw_add ref_ops (hnsw_create ref_ops (Some ''p'') 1 4 0) (Some '''') (Some [1]) 1
  = (0, Some \<lparr>hnsw = \<lparr>ref_dim = 1, ref_capacity = 4, ref_points = [(0, [1])], ref_deleted = [], ref_ef = 50\<rparr>,
    id_to_label = ['''' \<mapsto> 0], label_to_id = [''''], path = ''p'', dimension = 1, max_elements = 4,
    next_label = 1, modified = True, precision = 0\<rparr>)"
  by (simp add: api_simps ref_simps)

text \<open>The effect of the body of \<open>hnsw_add\<close> on the registry, and the steps of a run.\<close>

lemma add_body_cases:
  assumes "hnsw_add_body ops ident vec dimension_arg idx = r"
  shows "(\<exists>i. r = Threw i \<and> id_to_label i = id_to_label idx \<and> label_to_id i = label_to_id idx
              \<and> (next_label i = next_label idx \<or> next_label i = u64 (next_label idx + 1))
              \<and> modified i = modified idx \<and> dimension i = dimension idx)
       \<or> (\<exists>i. r = Done i
              \<and> id_to_label i = (id_to_label idx)(ident \<mapsto> next_label idx)
              \<and> label_to_id i =
                   (if next_label idx \<ge> length (label_to_id idx)
                    then resize (label_to_id idx) (u64 (next_label idx + 1))
                    else label_to_id idx)[next_label idx := ident]
              \<and> next_label i = u64 (next_label idx + 1) \<and> modified i
              \<and> dimension i = dimension idx)"
  using assms
  by (auto simp: hnsw_add_body_def on_hnsw_def Let_def
      split: option.splits outcome.splits if_splits)

lemma u64_id: "n < 2 ^ 64 \<Longrightarrow> u64 n = n"
  by (simp add: u64_def)

lemma length_resize: "length (resize xs n) = n"
  by (simp add: resize_def)

lemma registry_ok_mono:
  assumes ok: "registry_ok idx" and f: "id_to_label i = id_to_label idx"
    "label_to_id i = label_to_id idx" and n: "next_label idx \<le> next_label i"
  shows "registry_ok i"
  unfolding registry_ok_def f
proof (intro conjI allI impI)
  show "length (label_to_id idx) \<le> next_label i"
    using ok n unfolding registry_ok_def by (blast intro: le_trans)
  fix ident label assume "id_to_label idx ident = Some label"
  with ok have "label < next_label idx" unfolding registry_ok_def by blast
  with n show "label < next_label i" by linarith
qed

lemma add_step:
  assumes ok: "registry_ok idx" and nl: "next_label idx + 1 < 2 ^ 64"
    and r: "hnsw_add ops (Some idx) chunk_id_arg vector dimension_arg = (ret, index1)"
  shows "\<exists>idx1. index1 = Some idx1 \<and> registry_ok idx1
           \<and> next_label idx \<le> next_label idx1 \<and> next_label idx1 \<le> next_label idx + 1
           \<and> (\<forall>l\<in>set (assigned ret index1 chunk_id_arg).
                  l = next_label idx \<and> next_label idx1 = next_label idx + 1)"
proof (cases "\<exists>ident vec. chunk_id_arg = Some ident \<and> vector = Some vec
                \<and> dimension_arg = dimension idx")
  case False
  then have "ret = - 1" and "index1 = Some idx"
    using r by (auto simp: hnsw_add_def split: option.splits if_splits)
  then show ?thesis using ok by (simp add: assigned_def split: option.splits)
next
  case True
  then obtain ident vec where c: "chunk_id_arg = Some ident" "vector = Some vec"
    and d: "dimension_arg = dimension idx" by blast
  have u: "u64 (next_label idx + 1) = next_label idx + 1" using nl by (rule u64_id)
  then have u': "u64 (Suc (next_label idx)) = Suc (next_label idx)" by simp
  from add_body_cases [OF refl, of ops ident vec dimension_arg idx]
  consider (threw) i where "hnsw_add_body ops ident vec dimension_arg idx = Threw i"
      "id_to_label i = id_to_label idx" "label_to_id i = label_to_id idx"
      "next_label i = next_label idx \<or> next_label i = u64 (next_label idx + 1)"
    | (returned) i where "hnsw_add_body ops ident vec dimension_arg idx = Done i"
        "id_to_label i = (id_to_label idx)(ident \<mapsto> next_label idx)"
        "label_to_id i =
                   (if next_label idx \<ge> length (label_to_id idx)
                    then resize (label_to_id idx) (u64 (next_label idx + 1))
                    else label_to_id idx)[next_label idx := ident]"
        "next_label i = u64 (next_label idx + 1)"
    by blast
  then show ?thesis
  proof cases
    case threw
    have ri: "ret = - 1" "index1 = Some i" using r c d threw(1) by (simp_all add: hnsw_add_def)
    have n: "next_label idx \<le> next_label i" using threw(4) u by auto
    then have "registry_ok i" by (rule registry_ok_mono [OF ok threw(2,3)])
    then show ?thesis using ri threw(4) u n by (auto simp: assigned_def split: option.splits)
  next
    case returned
    have ri: "ret = 0" "index1 = Some i" using r c d returned(1) by (simp_all add: hnsw_add_def)
    have "length (label_to_id i) \<le> next_label idx + 1"
      using ok unfolding returned(3) registry_ok_def by (simp add: length_resize u u')
    moreover have "\<forall>ident' label. id_to_label i ident' = Some label \<longrightarrow> label < next_label idx + 1"
      using ok unfolding returned(2) registry_ok_def by (auto simp: less_Suc_eq)
    ultimately have "registry_ok i" unfolding registry_ok_def returned(4) u by simp
    then show ?thesis using ri returned(2) returned(4) u c by (simp add: assigned_def)
  qed
qed

lemma delete_step:
  assumes ok: "registry_ok idx"
    and r: "hnsw_delete ops (Some idx) chunk_id_arg = (ret, index1)"
  shows "\<exists>idx1. index1 = Some idx1 \<and> registry_ok idx1 \<and> next_label idx1 = next_label idx"
  using assms
  by (auto simp: hnsw_delete_def on_hnsw_def registry_ok_def
      split: option.splits outcome.splits if_splits)

lemma run_labels:
  assumes "registry_ok idx" and "next_label idx + length calls < 2 ^ 64"
  shows "\<exists>idx'. snd (run ops (Some idx) calls) = Some idx' \<and> registry_ok idx'
           \<and> next_label idx \<le> next_label idx'
           \<and> sorted_wrt (<) (fst (run ops (Some idx) calls))
           \<and> (\<forall>l\<in>set (fst (run ops (Some idx) calls)). next_label idx \<le> l \<and> l < next_label idx')"
  using assms
proof (induction calls arbitrary: idx)
  case Nil
  then show ?case by simp
next
  case (Cons c calls)
  show ?case
  proof (cases c)
    case (Add chunk_id_arg vector dimension_arg)
    obtain ret index1 where r: "hnsw_add ops (Some idx) chunk_id_arg vector dimension_arg = (ret, index1)"
      by (cases "hnsw_add ops (Some idx) chunk_id_arg vector dimension_arg") blast
    have nl: "next_label idx + 1 < 2 ^ 64" using Cons.prems(2) by simp
    from add_step [OF Cons.prems(1) nl r] obtain idx1 where i1: "index1 = Some idx1"
      and ok1: "registry_ok idx1" and lo: "next_label idx \<le> next_label idx1"
      and hi: "next_label idx1 \<le> next_label idx + 1"
      and asg: "\<forall>l\<in>set (assigned ret index1 chunk_id_arg).
                  l = next_label idx \<and> next_label idx1 = next_label idx + 1"
      by blast
    have "next_label idx1 + length calls < 2 ^ 64" using hi Cons.prems(2) by simp
    from Cons.IH [OF ok1 this] obtain idx' where
      s: "snd (run ops (Some idx1) calls) = Some idx'" and ok': "registry_ok idx'"
      and lo': "next_label idx1 \<le> next_label idx'"
      and so: "sorted_wrt (<) (fst (run ops (Some idx1) calls))"
      and b: "\<forall>l\<in>set (fst (run ops (Some idx1) calls)). next_label idx1 \<le> l \<and> l < next_label idx'"
      by blast
    have e: "run ops (Some idx) (c # calls)
        = (assigned ret index1 chunk_id_arg @ fst (run ops (Some idx1) calls),
           snd (run ops (Some idx1) calls))"
      unfolding Add by (simp add: r i1 split: prod.splits)
    have a1: "sorted_wrt (<) (assigned ret index1 chunk_id_arg)"
      by (simp add: assigned_def split: option.splits)
    have "sorted_wrt (<) (assigned ret index1 chunk_id_arg @ fst (run ops (Some idx1) calls))"
      unfolding sorted_wrt_append using a1 so asg b by fastforce
    moreover have "\<forall>l\<in>set (assigned ret index1 chunk_id_arg @ fst (run ops (Some idx1) calls)).
        next_label idx \<le> l \<and> l < next_label idx'"
      using asg b lo lo' by fastforce
    ultimately show ?thesis unfolding e using s ok' lo lo' by simp
  next
    case (Delete chunk_id_arg)
    obtain ret index1 where r: "hnsw_delete ops (Some idx) chunk_id_arg = (ret, index1)"
      by (cases "hnsw_delete ops (Some idx) chunk_id_arg") blast
    from delete_step [OF Cons.prems(1) r] obtain idx1 where i1: "index1 = Some idx1"
      and ok1: "registry_ok idx1" and nx: "next_label idx1 = next_label idx" by blast
    have "next_label idx1 + length calls < 2 ^ 64" using nx Cons.prems(2) by simp
    from Cons.IH [OF ok1 this] have "\<exists>idx'. snd (run ops (Some idx1) calls) = Some idx' \<and> registry_ok idx'
           \<and> next_label idx1 \<le> next_label idx'
           \<and> sorted_wrt (<) (fst (run ops (Some idx1) calls))
           \<and> (\<forall>l\<in>set (fst (run ops (Some idx1) calls)). next_label idx1 \<le> l \<and> l < next_label idx')" .
    moreover have "run ops (Some idx) (c # calls) = run ops (Some idx1) calls"
      unfolding Delete by (simp add: r i1)
    ultimately show ?thesis unfolding nx by simp
  qed
qed

text \<open>
  An update: a successful \<open>hnsw_add\<close> for an identifier that has the label \<open>old\<close> takes
  the next label for it and writes the slot of that label; the slot of \<open>old\<close> is as
  before.
\<close>

lemma hnsw_add_update_slots:
  assumes ok: "registry_ok idx" and nl: "next_label idx + 1 < 2 ^ 64"
    and old: "id_to_label idx ident = Some old" "old < length (label_to_id idx)"
    and r: "hnsw_add ops (Some idx) (Some ident) (Some vec) dimension_arg = (0, Some idx')"
  shows "label_to_id idx' ! old = label_to_id idx ! old"
    and "id_to_label idx' ident = Some (next_label idx)"
    and "label_to_id idx' ! next_label idx = ident"
    and "old < next_label idx"
proof -
  have u: "u64 (next_label idx + 1) = next_label idx + 1" using nl by (rule u64_id)
  have lt: "old < next_label idx" using ok old(1) unfolding registry_ok_def by blast
  have le: "length (label_to_id idx) \<le> next_label idx" using ok unfolding registry_ok_def by blast
  from r have d: "dimension_arg = dimension idx"
    by (auto simp: hnsw_add_def split: if_splits)
  from r d have b: "hnsw_add_body ops ident vec dimension_arg idx = Done idx'"
    by (auto simp: hnsw_add_def split: outcome.splits)
  from add_body_cases [OF b]
  have i: "id_to_label idx' = (id_to_label idx)(ident \<mapsto> next_label idx)"
    and s: "label_to_id idx' = (resize (label_to_id idx) (next_label idx + 1))[next_label idx := ident]"
    using le u by auto
  have rs: "resize (label_to_id idx) (next_label idx + 1)
      = label_to_id idx @ replicate (next_label idx + 1 - length (label_to_id idx)) []"
    using le by (simp add: resize_def)
  show "label_to_id idx' ! old = label_to_id idx ! old"
    unfolding s rs using lt old(2) by (simp add: nth_append)
  show "id_to_label idx' ident = Some (next_label idx)" unfolding i by simp
  show "label_to_id idx' ! next_label idx = ident"
    unfolding s by (simp add: length_resize)
  show "old < next_label idx" by (rule lt)
qed

text \<open>
  Claim C1 (the code differs).  The claim has an update tombstone the old label in the
  registry, so that one live label is left for the identifier.  \<open>hnsw_add\<close> marks the
  old label deleted in the library only (line 506); the slot of the old label keeps the
  identifier (\<open>hnsw_add_update_slots\<close>), unlike in \<open>hnsw_delete\<close>, which clears it
  (line 563).  After two calls for the identifier \<open>a\<close> the slots 0 and 1 both hold \<open>a\<close>.
\<close>

theorem update_keeps_old_slot: "run ref_ops (hnsw_create ref_ops (Some ''p'') 2 4 0)
     [Add (Some ''a'') (Some [1, 0]) 2, Add (Some ''a'') (Some [0, 1]) 2]
  = ([0, 1], Some \<lparr>hnsw = \<lparr>ref_dim = 2, ref_capacity = 4, ref_points = [(0, [1, 0]), (1, [0, 1])], ref_deleted = [0], ref_ef = 50\<rparr>,
    id_to_label = [''a'' \<mapsto> 1], label_to_id = [''a'', ''a''], path = ''p'', dimension = 2, max_elements = 4,
    next_label = 2, modified = True, precision = 0\<rparr>)"
  by (simp add: api_simps ref_simps)

text \<open>A created index has a well-formed registry, with label counter 0.\<close>

lemma hnsw_create_registry_ok:
  assumes "hnsw_create ops path_arg dimension_arg max_elements_arg precision_arg = Some idx"
  shows "registry_ok idx" and "next_label idx = 0"
  using assms
  by (auto simp: hnsw_create_def registry_ok_def split: option.splits if_splits)

text \<open>
  Claim C3.  Take an index whose registry is well formed (as after \<open>hnsw_create\<close>) and
  any sequence of calls of \<open>hnsw_add\<close> and \<open>hnsw_delete\<close>, with any arguments and any
  behaviour of the library, short of \<open>2^64\<close> labels.  The labels assigned by the
  successful calls of \<open>hnsw_add\<close>, in the order of the calls, are strictly increasing;
  each is at least the label counter of the index at the start, hence above every slot
  of the registry at the start, deleted slots included, and held by no identifier then.
  So no label is assigned twice or handed to another identifier.
\<close>

theorem label_monotonicity:
  assumes "registry_ok idx" and "next_label idx + length calls < 2 ^ 64"
  shows "sorted_wrt (<) (fst (run ops (Some idx) calls))
       \<and> (\<forall>l\<in>set (fst (run ops (Some idx) calls)).
             next_label idx \<le> l \<and> length (label_to_id idx) \<le> l
             \<and> (\<forall>ident. id_to_label idx ident \<noteq> Some l))"
proof -
  from run_labels [OF assms, of ops]
  have s: "sorted_wrt (<) (fst (run ops (Some idx) calls))"
    and b: "\<forall>l\<in>set (fst (run ops (Some idx) calls)). next_label idx \<le> l" by blast+
  have "length (label_to_id idx) \<le> l \<and> (\<forall>ident. id_to_label idx ident \<noteq> Some l)"
    if "next_label idx \<le> l" for l
    using assms(1) that unfolding registry_ok_def by fastforce
  with s b show ?thesis by blast
qed

theorem label_monotonicity_witness:
  "registry_ok \<lparr>hnsw = \<lparr>ref_dim = 1, ref_capacity = 2, ref_points = [], ref_deleted = [], ref_ef = 50\<rparr>,
      id_to_label = Map.empty, label_to_id = [], path = ''p'', dimension = 1, max_elements = 2,
      next_label = 0, modified = False, precision = 0\<rparr>
   \<and> fst (run ref_ops
        (Some \<lparr>hnsw = \<lparr>ref_dim = 1, ref_capacity = 2, ref_points = [], ref_deleted = [], ref_ef = 50\<rparr>,
      id_to_label = Map.empty, label_to_id = [], path = ''p'', dimension = 1, max_elements = 2,
      next_label = 0, modified = False, precision = 0\<rparr>)
        [Add (Some ''a'') (Some [1]) 1, Add (Some ''b'') (Some [1]) 1, Delete (Some ''a''),
         Add (Some ''a'') (Some [2]) 1, Add None (Some [2]) 1, Add (Some ''b'') (Some [3]) 1])
     = [0, 1, 2, 3]
   \<and> sorted_wrt (<) [0, 1, 2, 3 :: nat]"
  using label_monotonicity [of "\<lparr>hnsw = \<lparr>ref_dim = 1, ref_capacity = 2, ref_points = [], ref_deleted = [], ref_ef = 50\<rparr>,
      id_to_label = Map.empty, label_to_id = [], path = ''p'', dimension = 1, max_elements = 2,
      next_label = 0, modified = False, precision = 0\<rparr>"
      "[Add (Some ''a'') (Some [1]) 1, Add (Some ''b'') (Some [1]) 1, Delete (Some ''a''),
         Add (Some ''a'') (Some [2]) 1, Add None (Some [2]) 1, Add (Some ''b'') (Some [3]) 1]" ref_ops]
  by (simp add: registry_ok_def api_simps ref_simps)

section \<open>Search\<close>

lemma pq_drain_Nil: "pq_drain [] = []"
  by (subst pq_drain.simps) simp

lemma pq_drain_Cons:
  "pq_drain (x # xs) = Max (set (x # xs)) # pq_drain (remove1 (Max (set (x # xs))) (x # xs))"
  by (subst pq_drain.simps) (simp add: Let_def)

lemma set_pq_drain: "set (pq_drain q) = set q"
proof (induction q rule: pq_drain.induct)
  case (1 q)
  show ?case
  proof (cases "q = []")
    case True
    then show ?thesis by (simp add: pq_drain_Nil)
  next
    case False
    define item where "item = Max (set q)"
    have mem: "item \<in> set q" unfolding item_def using False by (intro Max_in) simp_all
    have "set (pq_drain (remove1 item q)) = set (remove1 item q)"
      using "1.IH" [OF False item_def] .
    moreover have "pq_drain q = item # pq_drain (remove1 item q)"
      using False by (subst pq_drain.simps) (simp add: Let_def item_def)
    moreover have "insert item (set (remove1 item q)) = set q"
    proof
      show "insert item (set (remove1 item q)) \<subseteq> set q"
        using mem set_remove1_subset [of item q] by blast
      show "set q \<subseteq> insert item (set (remove1 item q))"
      proof
        fix y assume y: "y \<in> set q"
        show "y \<in> insert item (set (remove1 item q))"
        proof (cases "y = item")
          case True
          then show ?thesis by simp
        next
          case False
          then have "y \<in> set (remove1 item q)" using y in_set_remove1 [of y item q] by blast
          then show ?thesis by simp
        qed
      qed
    qed
    ultimately show ?thesis by simp
  qed
qed

lemma filter_drain_empty:
  assumes "\<forall>item\<in>set result. \<not> P item"
  shows "filter P (pq_drain result) = []"
  using assms by (simp add: filter_empty_conv set_pq_drain)

lemmas search_simps = hnsw_search_def malloc_def pq_drain_Nil pq_drain_Cons

text \<open>
  Claim C10.  When the library returns a result and no item of it passes the filter of
  the registry (label within the slots, slot not empty), \<open>hnsw_search\<close> returns 0, writes
  the null pointer to \<open>*results\<close> and leaves the heap as it was: nothing is allocated.
  Whenever \<open>hnsw_search\<close> returns 0 this is so.  \<open>hnsw_free_results\<close> on the null pointer
  returns with the heap unchanged, for any count.
\<close>

theorem search_empty_result:
  "(0 < k \<and> dimension_arg = dimension idx
     \<and> ann_searchKnn ops (normalize_vector (take (nat dimension_arg) q)) (nat k) (hnsw idx)
         = Some result
     \<and> (\<forall>item\<in>set result. \<not> (snd item < length (label_to_id idx)
                                  \<and> label_to_id idx ! snd item \<noteq> []))
     \<longrightarrow> hnsw_search ops h (Some idx) (Some q) dimension_arg k False = (0, Written None, h))
   \<and> (hnsw_search ops h index query dimension_arg k results_null = (0, out, h1)
        \<longrightarrow> out = Written None \<and> h1 = h)
   \<and> hnsw_free_results h None count = Some h"
proof (intro conjI impI)
  assume a: "0 < k \<and> dimension_arg = dimension idx
     \<and> ann_searchKnn ops (normalize_vector (take (nat dimension_arg) q)) (nat k) (hnsw idx)
         = Some result
     \<and> (\<forall>item\<in>set result. \<not> (snd item < length (label_to_id idx)
                                  \<and> label_to_id idx ! snd item \<noteq> []))"
  then have f: "filter (\<lambda>item. snd item < length (label_to_id idx)
                                  \<and> label_to_id idx ! snd item \<noteq> []) (pq_drain result) = []"
    by (intro filter_drain_empty) simp
  from a have k: "0 < k" and d: "dimension idx = dimension_arg"
    and s: "ann_searchKnn ops (normalize_vector (take (nat dimension_arg) q)) (nat k) (hnsw idx)
         = Some result"
    by blast+
  show "hnsw_search ops h (Some idx) (Some q) dimension_arg k False = (0, Written None, h)"
    using k by (simp add: hnsw_search_def Let_def d s f)
next
  assume "hnsw_search ops h index query dimension_arg k results_null = (0, out, h1)"
  then show "out = Written None" and "h1 = h"
    by (auto simp: hnsw_search_def Let_def malloc_def
        split: option.splits if_splits prod.splits)
next
  show "hnsw_free_results h None count = Some h" by (simp add: hnsw_free_results_def)
qed

theorem search_empty_result_witness:
  "hnsw_search ref_ops \<lparr>blocks = [], limit = 8\<rparr>
     (Some \<lparr>hnsw = \<lparr>ref_dim = 2, ref_capacity = 4, ref_points = [(0, [1, 0])],
                     ref_deleted = [], ref_ef = 50\<rparr>,
            id_to_label = Map.empty, label_to_id = [[]], path = ''p'',
            dimension = 2, max_elements = 4, next_label = 1, modified = True,
            precision = 0\<rparr>)
     (Some [1, 0]) 2 1 False
    = (0, Written None, \<lparr>blocks = [], limit = 8\<rparr>)
   \<and> hnsw_free_results \<lparr>blocks = [], limit = 8\<rparr> None 0 = Some \<lparr>blocks = [], limit = 8\<rparr>"
  using search_empty_result [where k = 1 and dimension_arg = 2 and ops = ref_ops
      and q = "[1, 0]" and result = "[(0, 0)]" and h = "\<lparr>blocks = [], limit = 8\<rparr>"
      and count = 0 and index = None and query = None and results_null = True
      and out = Unwritten and ?h1.0 = "\<lparr>blocks = [], limit = 8\<rparr>"
      and idx = "\<lparr>hnsw = \<lparr>ref_dim = 2, ref_capacity = 4, ref_points = [(0, [1, 0])],
                     ref_deleted = [], ref_ef = 50\<rparr>,
            id_to_label = Map.empty, label_to_id = [[]], path = ''p'',
            dimension = 2, max_elements = 4, next_label = 1, modified = True,
            precision = 0\<rparr>"]
  by (simp add: ref_simps normalize_vector_def)

text \<open>
  The order of the results.  The queue is emptied from the greatest distance down, the
  array is filled in the reverse order, so the similarities of a returned array never
  increase from one entry to the next.
\<close>

lemma pq_drain_sorted: "sorted_wrt (\<ge>) (pq_drain q)"
proof (induction q rule: pq_drain.induct)
  case (1 q)
  show ?case
  proof (cases "q = []")
    case True
    then show ?thesis by (simp add: pq_drain_Nil)
  next
    case False
    define item where "item = Max (set q)"
    have e: "pq_drain q = item # pq_drain (remove1 item q)"
      using False by (subst pq_drain.simps) (simp add: Let_def item_def)
    have s: "sorted_wrt (\<ge>) (pq_drain (remove1 item q))"
      using "1.IH" [OF False item_def] .
    have "y \<le> item" if "y \<in> set (pq_drain (remove1 item q))" for y
    proof -
      from that have "y \<in> set (remove1 item q)" by (simp only: set_pq_drain)
      then have "y \<in> set q" using set_remove1_subset [of item q] by blast
      then show ?thesis unfolding item_def by (intro Max_ge) simp_all
    qed
    with s show ?thesis unfolding e by simp
  qed
qed

lemma fill_results_similarity:
  "map similarity (fst (fill_results slots items h)) = map (\<lambda>item. 1 - fst item) items"
  by (induction items arbitrary: h) (simp_all add: Let_def case_prod_beta)

lemma fill_results_length:
  "length (blocks h) \<le> length (blocks (snd (fill_results slots items h)))"
proof (induction items arbitrary: h)
  case Nil
  show ?case by simp
next
  case (Cons item items)
  obtain p h1 where m: "malloc (CString (slots ! snd item)) h = (p, h1)"
    by (cases "malloc (CString (slots ! snd item)) h") blast
  have "length (blocks h) \<le> length (blocks h1)"
    using m by (auto simp: malloc_def split: if_splits)
  also have "\<dots> \<le> length (blocks (snd (fill_results slots items h1)))" by (rule Cons.IH)
  finally show ?case by (simp add: m Let_def case_prod_beta)
qed

lemma descending_similarity:
  fixes items :: "(real \<times> nat) list"
  assumes "sorted_wrt (\<ge>) items"
  shows "sorted_wrt (\<ge>) (map (\<lambda>item. 1 - fst item) (rev (filter P items)))"
proof -
  have "sorted_wrt (\<ge>) (filter P items)" using assms by (rule sorted_wrt_filter)
  then have "sorted_wrt (\<le>) (rev (filter P items))"
    by (simp add: sorted_wrt_rev)
  then have "sorted_wrt (\<lambda>a b. 1 - fst a \<ge> 1 - fst b) (rev (filter P items))"
    by (rule sorted_wrt_mono_rel [rotated]) (auto simp: less_eq_prod_def)
  then show ?thesis by (simp add: sorted_wrt_map)
qed

lemma search_results_descending:
  assumes "hnsw_search ops h index query dimension_arg k results_null = (count, Written (Some a), h')"
  shows "\<exists>rs. a < length (blocks h') \<and> blocks h' ! a = Some (ResultArray rs)
            \<and> int (length rs) = count \<and> sorted_wrt (\<ge>) (map similarity rs)"
proof -
  from assms obtain idx q result where
    r: "ann_searchKnn ops (normalize_vector (take (nat dimension_arg) q)) (nat k) (hnsw idx) = Some result"
    and i: "index = Some idx" "query = Some q"
    by (auto simp: hnsw_search_def Let_def split: option.splits if_splits)
  define valid where "valid = filter (\<lambda>item. snd item < length (label_to_id idx)
                                        \<and> label_to_id idx ! snd item \<noteq> []) (pq_drain result)"
  obtain h1 where m: "malloc (ResultArray []) h = (Some a, h1)"
    and c: "count = int (length valid)"
    and h': "h' = (snd (fill_results (label_to_id idx) (rev valid) h1))
                    \<lparr>blocks := (blocks (snd (fill_results (label_to_id idx) (rev valid) h1)))
                      [a := Some (ResultArray (fst (fill_results (label_to_id idx) (rev valid) h1)))]\<rparr>"
    using assms i r unfolding valid_def [symmetric]
    by (auto simp: hnsw_search_def Let_def valid_def [symmetric]
        split: option.splits if_splits prod.splits)
  define rs where "rs = fst (fill_results (label_to_id idx) (rev valid) h1)"
  have "a < length (blocks h1)" using m by (auto simp: malloc_def split: if_splits)
  also have "\<dots> \<le> length (blocks (snd (fill_results (label_to_id idx) (rev valid) h1)))"
    by (rule fill_results_length)
  finally have a: "a < length (blocks (snd (fill_results (label_to_id idx) (rev valid) h1)))" .
  have s: "map similarity rs = map (\<lambda>item. 1 - fst item) (rev valid)"
    unfolding rs_def by (rule fill_results_similarity)
  then have "length rs = length valid" by (metis length_map length_rev)
  moreover have "sorted_wrt (\<ge>) (map similarity rs)"
    unfolding s valid_def by (rule descending_similarity [OF pq_drain_sorted])
  ultimately show ?thesis using a c unfolding h' rs_def [symmetric] by simp
qed

text \<open>
  Claim C2 (the code differs).  The similarity written to a result is 1 minus the
  distance (line 627), and the comment on line 626 says it lies in [0,1].  For
  normalised vectors the inner-product distance lies in [0,2]: with the vector (1,0)
  stored under \<open>a\<close>, the query (-1,0) has distance 2 and the call returns \<open>a\<close> with
  similarity -1.  The other half of the claim, the descending order, holds
  (\<open>search_results_descending\<close>).
\<close>

theorem search_similarity_negative:
  "hnsw_search ref_ops \<lparr>blocks = [], limit = 8\<rparr>
     (snd (hnsw_add ref_ops (hnsw_create ref_ops (Some ''p'') 2 4 0) (Some ''a'') (Some [1, 0]) 2))
     (Some [- 1, 0]) 2 1 False
   = (1, Written (Some 0),
      \<lparr>blocks = [Some (ResultArray [\<lparr>chunk_id = Some 1, similarity = - 1\<rparr>]),
                 Some (CString ''a'')],
       limit = 8\<rparr>)"
  by (simp add: api_simps ref_simps search_simps)

section \<open>Opening a stored index\<close>

text \<open>The example directories, opened with the reference primitive.\<close>

lemmas open_simps = hnsw_open_def load_id_mappings_def load_compressed_vectors_def
  read_u32_def read_u64_def read_bytes_def int32_of_nat_def read_vector_def
  HNSW_PRECISION_FLOAT32_def HNSW_PRECISION_FLOAT16_def HNSW_PRECISION_INT8_def
  ref_load_def Let_def

lemma char_of_97: "char_of (97::nat) = CHR ''a''"
  by code_simp

lemma h2f_one: "half_to_float 0x3C00 = Some 0x3F800000"
  by (simp add: half_to_float_def)

lemma fv_one: "float_val 0x3F800000 = 1"
  by (simp add: float_val_def)

lemma open_half_one: "hnsw_open ref_ops fs_half_one (Some ''p'') 1 =
   Some \<lparr>hnsw = \<lparr>ref_dim = 1, ref_capacity = 1, ref_points = [(0, [1])], ref_deleted = [], ref_ef = 50\<rparr>,
      id_to_label = [''a'' \<mapsto> 0], label_to_id = [''a''], path = ''p'', dimension = 1, max_elements = 1,
      next_label = 1, modified = False, precision = 1\<rparr>"
  by (simp add: open_simps ref_simps fs_half_one_def h2f_one fv_one char_of_97)

lemma open_half_none: "hnsw_open ref_ops fs_half_none (Some ''p'') 1 =
   Some \<lparr>hnsw = \<lparr>ref_dim = 1, ref_capacity = 100000, ref_points = [], ref_deleted = [], ref_ef = 50\<rparr>,
      id_to_label = Map.empty, label_to_id = [], path = ''p'', dimension = 1, max_elements = 100000,
      next_label = 0, modified = False, precision = 1\<rparr>"
  by (simp add: open_simps ref_simps fs_half_none_def)

lemma open_full_none: "hnsw_open ref_ops fs_full_none (Some ''p'') 1 =
   Some \<lparr>hnsw = \<lparr>ref_dim = 1, ref_capacity = 4, ref_points = [], ref_deleted = [], ref_ef = 50\<rparr>,
      id_to_label = Map.empty, label_to_id = [], path = ''p'', dimension = 1, max_elements = 4,
      next_label = 0, modified = False, precision = 0\<rparr>"
  by (simp add: open_simps ref_simps fs_full_none_def)

lemma h2f_zero_code: "half_to_float 0 = Some 0"
  by (simp add: half_to_float_def)

lemma fv_zero: "float_val 0 = 0"
  by (simp add: float_val_def)

lemma read_mappings_numeral:
  "read_mappings (numeral k) s slots labels = read_mappings (Suc (pred_numeral k)) s slots labels"
  by (simp only: numeral_eq_Suc)

lemma replay_vectors_numeral:
  "replay_vectors ops prec dimn slots (numeral k) label s h
     = replay_vectors ops prec dimn slots (Suc (pred_numeral k)) label s h"
  by (simp only: numeral_eq_Suc)

lemma replicate_2: "replicate 2 x = [x, x]"
  by (simp add: numeral_2_eq_2)

lemma open_half_tomb: "hnsw_open ref_ops fs_half_tomb (Some ''p'') 1 =
   Some \<lparr>hnsw = \<lparr>ref_dim = 1, ref_capacity = 2, ref_points = [(1, [1])], ref_deleted = [], ref_ef = 50\<rparr>,
      id_to_label = [''a'' \<mapsto> 1], label_to_id = ['''', ''a''], path = ''p'', dimension = 1, max_elements = 2,
      next_label = 2, modified = False, precision = 1\<rparr>"
  by (simp add: open_simps ref_simps fs_half_tomb_def h2f_one fv_one h2f_zero_code fv_zero char_of_97
      read_mappings_numeral replay_vectors_numeral replicate_2)

lemma bits_half: "f32_of_bits 0x3F000000 = Fin (1 / 2)"
  by (simp add: f32_of_bits_def float_val_def)

lemma f32_round_1: "f32_round 1 = Fin 1"
  by (rule f32_round_eval [where e = 0]) (simp_all add: rne_def)

lemma f32_round_m1: "f32_round (- 1) = Fin (- 1)"
  by (rule f32_round_eval [where e = 0]) (simp_all add: rne_def)

lemma open_quant_one: "hnsw_open ref_ops fs_quant_one (Some ''p'') 2 =
   Some \<lparr>hnsw = \<lparr>ref_dim = 2, ref_capacity = 1, ref_points = [(0, [1, - 1])], ref_deleted = [],
                  ref_ef = 50\<rparr>,
      id_to_label = [''a'' \<mapsto> 0], label_to_id = [''a''], path = ''p'', dimension = 2, max_elements = 1,
      next_label = 1, modified = False, precision = 2\<rparr>"
  using bits_half f32_round_1 f32_round_m1
  by (simp add: open_simps ref_simps fs_quant_one_def dequantize_vector_int8_def char_of_97)

text \<open>What a successful \<open>hnsw_open\<close> has done.\<close>

lemma hnsw_open_absent:
  "fs (p @ ''/id_mapping.bin'') = None \<Longrightarrow> hnsw_open ops fs (Some p) d = None"
  by (simp add: hnsw_open_def)

lemma hnsw_open_Some:
  assumes "hnsw_open ops fs (Some p) d = Some idx"
  shows "(\<exists>mapping m. fs (p @ ''/id_mapping.bin'') = Some mapping
            \<and> load_id_mappings mapping = Some m
            \<and> precision idx = m_precision m \<and> label_to_id idx = m_label_to_id m
            \<and> id_to_label idx = m_id_to_label m \<and> next_label idx = m_next_label m)"
    and "0 < d" and "dimension idx = d" and "\<not> modified idx"
    and "precision idx = HNSW_PRECISION_FLOAT32 \<longrightarrow>
           (\<exists>graph h. fs (p @ ''/index.bin'') = Some graph
              \<and> ann_load ops (nat d) graph = Some h
              \<and> hnsw idx = ann_setEf ops 50 h \<and> max_elements idx = ann_max_elements ops h)"
    and "precision idx \<noteq> HNSW_PRECISION_FLOAT32 \<longrightarrow>
           max_elements idx
             = (if length (label_to_id idx) = 0 then 100000 else length (label_to_id idx))
           \<and> (\<exists>h0 h. ann_create ops (nat d) (max_elements idx) = Some h0
                \<and> load_compressed_vectors ops fs p (precision idx) d (label_to_id idx) h0 = Some h
                \<and> hnsw idx = ann_setEf ops 50 h)"
  using assms
  by (auto simp: hnsw_open_def Let_def split: option.splits if_splits)

text \<open>
  The loop of \<open>load_compressed_vectors\<close> against the replay of the specification: a
  record is read whole or not at all, and decoding never fails, so the loop fails
  exactly when the file ends before the last record, and otherwise inserts what
  \<open>replay_spec\<close> inserts.
\<close>

lemma decode_halves_total: "\<exists>vec. decode_halves cs = Some vec"
proof (induction cs)
  case Nil show ?case by simp
next
  case (Cons c cs)
  from half_to_float_total [of c] obtain y where "half_to_float c = Some y" ..
  with Cons show ?case by auto
qed

lemma read_vector_short:
  assumes "length s < record_size prec dimn"
  shows "read_vector prec dimn s = None"
proof (cases "prec = HNSW_PRECISION_FLOAT16")
  case True
  with assms show ?thesis by (simp add: read_vector_def record_size_def read_bytes_def)
next
  case False
  with assms show ?thesis
    by (auto simp: read_vector_def record_size_def read_bytes_def split: option.splits)
qed

lemma read_vector_long:
  assumes "record_size prec dimn \<le> length s"
  shows "\<exists>vec. read_vector prec dimn s = Some (vec, drop (record_size prec dimn) s)"
proof (cases "prec = HNSW_PRECISION_FLOAT16")
  case True
  from decode_halves_total [of "half_codes (take (dimn * 2) s)"]
  obtain vec where "decode_halves (half_codes (take (dimn * 2) s)) = Some vec" ..
  with True assms show ?thesis
    by (simp add: read_vector_def record_size_def read_bytes_def)
next
  case False
  with assms show ?thesis
    by (simp add: read_vector_def record_size_def read_bytes_def add.commute)
qed

lemma replay_vectors_spec:
  assumes "label * record_size prec dimn \<le> length body"
  shows "replay_vectors ops prec dimn slots n label (drop (label * record_size prec dimn) body) h =
     (if length body < (label + n) * record_size prec dimn then None
      else Some (foldl (\<lambda>h label.
             if label < length slots \<and> slots ! label \<noteq> []
             then (case ann_addPoint ops (stored_record prec dimn body label) label h of
                     Done h1 \<Rightarrow> h1 | Threw h1 \<Rightarrow> h1)
             else h) h [label..<label + n]))"
  using assms
proof (induction n arbitrary: label h)
  case 0
  then show ?case by simp
next
  case (Suc n)
  define rs where "rs = record_size prec dimn"
  define s where "s = drop (label * rs) body"
  define f where "f = (\<lambda>h label.
             if label < length slots \<and> slots ! label \<noteq> []
             then (case ann_addPoint ops (stored_record prec dimn body label) label h of
                     Done h1 \<Rightarrow> h1 | Threw h1 \<Rightarrow> h1)
             else h)"
  have len: "length s = length body - label * rs" by (simp add: s_def)
  show ?case
  proof (cases "length s < rs")
    case True
    then have "read_vector prec dimn s = None" unfolding rs_def by (rule read_vector_short)
    moreover have "length body < (label + Suc n) * rs"
    proof -
      have "length body < label * rs + rs" using True len Suc.prems by (simp add: rs_def)
      also have "\<dots> \<le> (label + Suc n) * rs" by (simp add: algebra_simps)
      finally show ?thesis .
    qed
    ultimately show ?thesis by (simp add: rs_def [symmetric] s_def [symmetric])
  next
    case False
    then have ge: "rs \<le> length s" by simp
    then obtain vec where rv: "read_vector prec dimn s = Some (vec, drop rs s)"
      using read_vector_long [of prec dimn s] unfolding rs_def by blast
    have vec: "stored_record prec dimn body label = vec"
      by (simp add: stored_record_def rs_def [symmetric] s_def [symmetric] rv)
    have dr: "drop rs s = drop (Suc label * rs) body" by (simp add: s_def add.commute)
    have nx: "Suc label * rs \<le> length body" using ge len Suc.prems by (simp add: rs_def)
    have ih: "replay_vectors ops prec dimn slots n (Suc label) (drop (Suc label * rs) body) (f h label)
        = (if length body < (Suc label + n) * rs then None
           else Some (foldl f (f h label) [Suc label..<Suc label + n]))"
      using Suc.IH [of "Suc label" "f h label"] nx unfolding rs_def f_def by simp
    have up: "[label..<label + Suc n] = label # [Suc label..<Suc label + n]"
      by (simp add: upt_conv_Cons)
    have "replay_vectors ops prec dimn slots (Suc n) label s h
        = replay_vectors ops prec dimn slots n (Suc label) (drop rs s) (f h label)"
      by (simp add: rv vec f_def)
    also have "\<dots> = (if length body < (Suc label + n) * rs then None
           else Some (foldl f (f h label) [Suc label..<Suc label + n]))"
      unfolding dr by (rule ih)
    also have "\<dots> = (if length body < (label + Suc n) * rs then None
           else Some (foldl f h [label..<label + Suc n]))"
      unfolding up by simp
    finally show ?thesis unfolding s_def rs_def f_def .
  qed
qed

lemma replay_vectors_0:
  "replay_vectors ops prec dimn slots n 0 body h =
     (if length body < n * record_size prec dimn then None
      else Some (replay_spec ops prec dimn slots n body h))"
  using replay_vectors_spec [of 0 prec dimn body ops slots n h]
  by (simp add: replay_spec_def)

text \<open>The headers of the two files.\<close>

lemma read_u32_eq:
  "read_u32 s = (if length s < 4 then None else Some (le_nat (take 4 s), drop 4 s))"
  by (simp add: read_u32_def read_bytes_def)

lemma read_u64_eq:
  "read_u64 s = (if length s < 8 then None else Some (le_nat (take 8 s), drop 8 s))"
  by (simp add: read_u64_def read_bytes_def)

lemma load_compressed_vectors_eq:
  assumes "prec = HNSW_PRECISION_FLOAT16 \<or> prec = HNSW_PRECISION_INT8"
  shows "load_compressed_vectors ops fs p prec d slots h0 =
    (case fs (p @ (if prec = HNSW_PRECISION_FLOAT16 then ''/vectors.f16'' else ''/vectors.i8'')) of
       None \<Rightarrow> None
     | Some s \<Rightarrow>
        if length s < 8 \<or> int32_of_nat (le_nat (take 4 (drop 4 s))) \<noteq> d
           \<or> length s < 8 + le_nat (take 4 s) * record_size prec (nat d)
        then None
        else Some (replay_spec ops prec (nat d) slots (le_nat (take 4 s)) (drop 8 s) h0))"
proof (cases "fs (p @ (if prec = HNSW_PRECISION_FLOAT16 then ''/vectors.f16'' else ''/vectors.i8''))")
  case None
  with assms show ?thesis by (auto simp: load_compressed_vectors_def)
next
  case (Some s)
  have a: "prec \<noteq> HNSW_PRECISION_FLOAT16 \<and> prec \<noteq> HNSW_PRECISION_INT8 \<longleftrightarrow> False"
    using assms by blast
  show ?thesis
  proof (cases "length s < 8")
    case True
    then show ?thesis
      unfolding load_compressed_vectors_def a using Some
      by (auto simp: read_u32_eq split: option.splits)
  next
    case False
    then have l: "\<not> length s < 4" "\<not> length s - 4 < 4" "8 \<le> length s" by simp_all
    have d8: "drop 4 (drop 4 s) = drop 8 s" by simp
    have step: "load_compressed_vectors ops fs p prec d slots h0 =
        (if int32_of_nat (le_nat (take 4 (drop 4 s))) \<noteq> d then None
         else replay_vectors ops prec (nat d) slots (le_nat (take 4 s)) 0 (drop 8 s) h0)"
      unfolding load_compressed_vectors_def a using Some l
      by (simp add: read_u32_eq d8)
    have lb: "length (drop 8 s) < le_nat (take 4 s) * record_size prec (nat d)
        \<longleftrightarrow> length s < 8 + le_nat (take 4 s) * record_size prec (nat d)"
      using l(3) by auto
    show ?thesis
      unfolding step replay_vectors_0 lb using Some False by simp
  qed
qed

lemma read_mappings_length:
  "read_mappings n s slots labels = Some (slots', labels', s') \<Longrightarrow> length slots' = length slots"
proof (induction n arbitrary: s slots labels)
  case 0
  then show ?case by simp
next
  case (Suc n)
  then show ?case
    by (auto simp: Let_def split: option.splits if_splits)
qed

lemma load_id_mappings_header:
  assumes "load_id_mappings mapping = Some m"
  shows "m_precision m = int32_of_nat (le_nat (take 4 mapping))"
    and "length (m_label_to_id m) = le_nat (take 8 (drop 4 mapping))"
proof -
  from assms show "m_precision m = int32_of_nat (le_nat (take 4 mapping))"
    by (auto simp: load_id_mappings_def read_u32_eq read_u64_eq split: option.splits if_splits)
  from assms show "length (m_label_to_id m) = le_nat (take 8 (drop 4 mapping))"
    by (auto simp: load_id_mappings_def read_u32_eq read_u64_eq
        dest!: read_mappings_length split: option.splits if_splits)
qed

text \<open>The compressed precisions: when \<open>hnsw_open\<close> fails, and what it has built otherwise.\<close>

lemma hnsw_open_compressed_fail:
  assumes "fs (p @ ''/id_mapping.bin'') = Some mapping"
    and "prec = int32_of_nat (le_nat (take 4 mapping))"
    and "prec = HNSW_PRECISION_FLOAT16 \<or> prec = HNSW_PRECISION_INT8"
    and "case fs (p @ (if prec = HNSW_PRECISION_FLOAT16 then ''/vectors.f16'' else ''/vectors.i8'')) of
           None \<Rightarrow> True
         | Some s \<Rightarrow> length s < 8 \<or> int32_of_nat (le_nat (take 4 (drop 4 s))) \<noteq> d
                      \<or> length s < 8 + le_nat (take 4 s) * record_size prec (nat d)"
  shows "hnsw_open ops fs (Some p) d = None"
proof (cases "load_id_mappings mapping")
  case None
  with assms(1) show ?thesis by (simp add: hnsw_open_def)
next
  case (Some m)
  have pm: "m_precision m = prec" using load_id_mappings_header(1) [OF Some] assms(2) by simp
  have nf: "m_precision m \<noteq> HNSW_PRECISION_FLOAT32"
    using assms(3) pm
    by (auto simp: HNSW_PRECISION_FLOAT32_def HNSW_PRECISION_FLOAT16_def HNSW_PRECISION_INT8_def)
  define name where
    "name = p @ (if prec = HNSW_PRECISION_FLOAT16 then ''/vectors.f16'' else ''/vectors.i8'')"
  have "load_compressed_vectors ops fs p prec d slots h0 = None" for slots h0
  proof (cases "fs name")
    case None
    then show ?thesis
      unfolding load_compressed_vectors_eq [OF assms(3)] name_def [symmetric] by simp
  next
    case (Some s)
    with assms(4) have "length s < 8 \<or> int32_of_nat (le_nat (take 4 (drop 4 s))) \<noteq> d
        \<or> length s < 8 + le_nat (take 4 s) * record_size prec (nat d)"
      unfolding name_def [symmetric] by simp
    then show ?thesis
      unfolding load_compressed_vectors_eq [OF assms(3)] name_def [symmetric] Some
      by (simp only: option.case if_True)
  qed
  then show ?thesis
    using assms(1) Some nf pm by (simp add: hnsw_open_def Let_def split: option.splits)
qed

lemma hnsw_open_success:
  assumes "hnsw_open ops fs (Some p) d = Some idx"
  shows "0 < d" and "dimension idx = d" and "\<not> modified idx"
    and "\<exists>mapping. fs (p @ ''/id_mapping.bin'') = Some mapping
           \<and> precision idx = int32_of_nat (le_nat (take 4 mapping))
           \<and> length (label_to_id idx) = le_nat (take 8 (drop 4 mapping))"
proof -
  from hnsw_open_Some(1) [OF assms] obtain mapping m where
    m: "fs (p @ ''/id_mapping.bin'') = Some mapping" "load_id_mappings mapping = Some m"
      "precision idx = m_precision m" "label_to_id idx = m_label_to_id m" by blast
  show "0 < d" by (rule hnsw_open_Some(2) [OF assms])
  show "dimension idx = d" by (rule hnsw_open_Some(3) [OF assms])
  show "\<not> modified idx" by (rule hnsw_open_Some(4) [OF assms])
  from m load_id_mappings_header [OF m(2)]
  show "\<exists>mapping. fs (p @ ''/id_mapping.bin'') = Some mapping
           \<and> precision idx = int32_of_nat (le_nat (take 4 mapping))
           \<and> length (label_to_id idx) = le_nat (take 8 (drop 4 mapping))"
    by auto
qed

lemma hnsw_open_compressed:
  assumes "hnsw_open ops fs (Some p) d = Some idx"
    and "precision idx = HNSW_PRECISION_FLOAT16 \<or> precision idx = HNSW_PRECISION_INT8"
  shows "max_elements idx
           = (if length (label_to_id idx) = 0 then 100000 else length (label_to_id idx))"
    and "\<exists>h0 s. ann_create ops (nat d) (max_elements idx) = Some h0
           \<and> fs (p @ (if precision idx = HNSW_PRECISION_FLOAT16 then ''/vectors.f16''
                        else ''/vectors.i8'')) = Some s
           \<and> int32_of_nat (le_nat (take 4 (drop 4 s))) = d
           \<and> 8 + le_nat (take 4 s) * record_size (precision idx) (nat d) \<le> length s
           \<and> hnsw idx = ann_setEf ops 50
                (replay_spec ops (precision idx) (nat d) (label_to_id idx) (le_nat (take 4 s))
                   (drop 8 s) h0)"
proof -
  have nf: "precision idx \<noteq> HNSW_PRECISION_FLOAT32"
    using assms(2)
    by (auto simp: HNSW_PRECISION_FLOAT32_def HNSW_PRECISION_FLOAT16_def HNSW_PRECISION_INT8_def)
  from hnsw_open_Some(6) [OF assms(1)] nf
  have cap: "max_elements idx
           = (if length (label_to_id idx) = 0 then 100000 else length (label_to_id idx))"
    and "\<exists>h0 h. ann_create ops (nat d) (max_elements idx) = Some h0
                \<and> load_compressed_vectors ops fs p (precision idx) d (label_to_id idx) h0 = Some h
                \<and> hnsw idx = ann_setEf ops 50 h"
    by blast+
  then obtain h0 h where h: "ann_create ops (nat d) (max_elements idx) = Some h0"
    "load_compressed_vectors ops fs p (precision idx) d (label_to_id idx) h0 = Some h"
    "hnsw idx = ann_setEf ops 50 h" by blast
  show "max_elements idx
           = (if length (label_to_id idx) = 0 then 100000 else length (label_to_id idx))"
    by (rule cap)
  define name where
    "name = p @ (if precision idx = HNSW_PRECISION_FLOAT16 then ''/vectors.f16'' else ''/vectors.i8'')"
  from h(2) obtain s where s: "fs name = Some s"
    unfolding load_compressed_vectors_eq [OF assms(2)] name_def [symmetric]
    by (cases "fs name") simp_all
  from h(2) have c: "\<not> (length s < 8 \<or> int32_of_nat (le_nat (take 4 (drop 4 s))) \<noteq> d
           \<or> length s < 8 + le_nat (take 4 s) * record_size (precision idx) (nat d))"
    and r: "h = replay_spec ops (precision idx) (nat d) (label_to_id idx) (le_nat (take 4 s))
                   (drop 8 s) h0"
    unfolding load_compressed_vectors_eq [OF assms(2)] name_def [symmetric] s
    by (simp_all split: if_splits)
  from c have "int32_of_nat (le_nat (take 4 (drop 4 s))) = d"
    and "8 + le_nat (take 4 s) * record_size (precision idx) (nat d) \<le> length s" by auto
  with h(1) s [unfolded name_def] h(3) r
  show "\<exists>h0 s. ann_create ops (nat d) (max_elements idx) = Some h0
           \<and> fs (p @ (if precision idx = HNSW_PRECISION_FLOAT16 then ''/vectors.f16''
                        else ''/vectors.i8'')) = Some s
           \<and> int32_of_nat (le_nat (take 4 (drop 4 s))) = d
           \<and> 8 + le_nat (take 4 s) * record_size (precision idx) (nat d) \<le> length s
           \<and> hnsw idx = ann_setEf ops 50
                (replay_spec ops (precision idx) (nat d) (label_to_id idx) (le_nat (take 4 s))
                   (drop 8 s) h0)"
    by blast
qed

text \<open>
  Claim C4, as amended.  \<open>hnsw_open\<close> fails when the mapping file is absent.  When the
  mapping file gives the precision FLOAT16 or INT8, it fails when the vector file is
  absent, is shorter than its header and records, or has a header dimension other than
  the dimension asked for.  When it succeeds, the index has the dimension asked for, the
  precision and the number of slots that the mapping file stores, and is unmodified.
  For FLOAT32 the library state is the library's own load of \<open>index.bin\<close> and the capacity
  is taken from it.  For FLOAT16 and INT8 the library state is a fresh empty one whose
  capacity is the number of slots, or 100000 when there is no slot, into which the
  vector file has been replayed: the records below the stored vector count, each
  inserted under its label exactly when the slot of that label holds an identifier.
\<close>

theorem hnsw_open_amended:
  "(fs (p @ ''/id_mapping.bin'') = None \<longrightarrow> hnsw_open ops fs (Some p) d = None)
   \<and> (fs (p @ ''/id_mapping.bin'') = Some mapping
        \<and> prec = int32_of_nat (le_nat (take 4 mapping))
        \<and> (prec = HNSW_PRECISION_FLOAT16 \<or> prec = HNSW_PRECISION_INT8)
        \<and> (case fs (p @ (if prec = HNSW_PRECISION_FLOAT16 then ''/vectors.f16''
                           else ''/vectors.i8'')) of
              None \<Rightarrow> True
            | Some s \<Rightarrow> length s < 8 \<or> int32_of_nat (le_nat (take 4 (drop 4 s))) \<noteq> d
                         \<or> length s < 8 + le_nat (take 4 s) * record_size prec (nat d))
        \<longrightarrow> hnsw_open ops fs (Some p) d = None)
   \<and> (hnsw_open ops fs (Some p) d = Some idx \<longrightarrow>
        0 < d \<and> dimension idx = d \<and> \<not> modified idx
        \<and> (\<exists>mapping. fs (p @ ''/id_mapping.bin'') = Some mapping
              \<and> precision idx = int32_of_nat (le_nat (take 4 mapping))
              \<and> length (label_to_id idx) = le_nat (take 8 (drop 4 mapping)))
        \<and> (precision idx = HNSW_PRECISION_FLOAT32 \<longrightarrow>
             (\<exists>graph h. fs (p @ ''/index.bin'') = Some graph
                \<and> ann_load ops (nat d) graph = Some h
                \<and> hnsw idx = ann_setEf ops 50 h \<and> max_elements idx = ann_max_elements ops h))
        \<and> (precision idx = HNSW_PRECISION_FLOAT16 \<or> precision idx = HNSW_PRECISION_INT8 \<longrightarrow>
             max_elements idx
               = (if length (label_to_id idx) = 0 then 100000 else length (label_to_id idx))
             \<and> (\<exists>h0 s. ann_create ops (nat d) (max_elements idx) = Some h0
                  \<and> fs (p @ (if precision idx = HNSW_PRECISION_FLOAT16 then ''/vectors.f16''
                               else ''/vectors.i8'')) = Some s
                  \<and> int32_of_nat (le_nat (take 4 (drop 4 s))) = d
                  \<and> 8 + le_nat (take 4 s) * record_size (precision idx) (nat d) \<le> length s
                  \<and> hnsw idx = ann_setEf ops 50
                       (replay_spec ops (precision idx) (nat d) (label_to_id idx)
                          (le_nat (take 4 s)) (drop 8 s) h0))))"
proof (intro conjI impI)
  assume "fs (p @ ''/id_mapping.bin'') = None"
  then show "hnsw_open ops fs (Some p) d = None" by (rule hnsw_open_absent)
next
  assume a: "fs (p @ ''/id_mapping.bin'') = Some mapping
        \<and> prec = int32_of_nat (le_nat (take 4 mapping))
        \<and> (prec = HNSW_PRECISION_FLOAT16 \<or> prec = HNSW_PRECISION_INT8)
        \<and> (case fs (p @ (if prec = HNSW_PRECISION_FLOAT16 then ''/vectors.f16''
                           else ''/vectors.i8'')) of
              None \<Rightarrow> True
            | Some s \<Rightarrow> length s < 8 \<or> int32_of_nat (le_nat (take 4 (drop 4 s))) \<noteq> d
                         \<or> length s < 8 + le_nat (take 4 s) * record_size prec (nat d))"
  show "hnsw_open ops fs (Some p) d = None"
    by (rule hnsw_open_compressed_fail [of fs p mapping prec d])
      (use a in \<open>blast+\<close>)
next
  assume a: "hnsw_open ops fs (Some p) d = Some idx"
  show "0 < d" by (rule hnsw_open_success(1) [OF a])
  show "dimension idx = d" by (rule hnsw_open_success(2) [OF a])
  show "\<not> modified idx" by (rule hnsw_open_success(3) [OF a])
  show "\<exists>mapping. fs (p @ ''/id_mapping.bin'') = Some mapping
              \<and> precision idx = int32_of_nat (le_nat (take 4 mapping))
              \<and> length (label_to_id idx) = le_nat (take 8 (drop 4 mapping))"
    by (rule hnsw_open_success(4) [OF a])
  {
    assume "precision idx = HNSW_PRECISION_FLOAT32"
    with hnsw_open_Some(5) [OF a]
    show "\<exists>graph h. fs (p @ ''/index.bin'') = Some graph
                \<and> ann_load ops (nat d) graph = Some h
                \<and> hnsw idx = ann_setEf ops 50 h \<and> max_elements idx = ann_max_elements ops h"
      by (rule mp)
  }
  {
    assume c: "precision idx = HNSW_PRECISION_FLOAT16 \<or> precision idx = HNSW_PRECISION_INT8"
    show "max_elements idx
               = (if length (label_to_id idx) = 0 then 100000 else length (label_to_id idx))"
      by (rule hnsw_open_compressed(1) [OF a c])
    show "\<exists>h0 s. ann_create ops (nat d) (max_elements idx) = Some h0
                  \<and> fs (p @ (if precision idx = HNSW_PRECISION_FLOAT16 then ''/vectors.f16''
                               else ''/vectors.i8'')) = Some s
                  \<and> int32_of_nat (le_nat (take 4 (drop 4 s))) = d
                  \<and> 8 + le_nat (take 4 s) * record_size (precision idx) (nat d) \<le> length s
                  \<and> hnsw idx = ann_setEf ops 50
                       (replay_spec ops (precision idx) (nat d) (label_to_id idx)
                          (le_nat (take 4 s)) (drop 8 s) h0)"
      by (rule hnsw_open_compressed(2) [OF a c])
  }
qed

text \<open>
  No mapping file; a vector file of dimension 1 opened under dimension 2; a vector file
  cut short; a FLOAT32 index whose graph file is in the persisted form of the reference
  primitive; a FLOAT16 index with a tombstoned slot, whose record is read and not
  inserted; and an INT8 index.
\<close>

theorem hnsw_open_amended_witness:
  "hnsw_open ref_ops Map.empty (Some ''p'') 1 = None
   \<and> hnsw_open ref_ops fs_half_one (Some ''p'') 2 = None
   \<and> hnsw_open ref_ops fs_half_cut (Some ''p'') 1 = None
   \<and> hnsw_open ref_ops fs_full_none (Some ''p'') 1 =
       Some \<lparr>hnsw = \<lparr>ref_dim = 1, ref_capacity = 4, ref_points = [], ref_deleted = [], ref_ef = 50\<rparr>,
             id_to_label = Map.empty, label_to_id = [], path = ''p'', dimension = 1,
             max_elements = 4, next_label = 0, modified = False, precision = 0\<rparr>
   \<and> (\<exists>graph h. fs_full_none ''p/index.bin'' = Some graph \<and> ref_load 1 graph = Some h
         \<and> ref_capacity h = 4)
   \<and> hnsw_open ref_ops fs_half_tomb (Some ''p'') 1 =
       Some \<lparr>hnsw = \<lparr>ref_dim = 1, ref_capacity = 2, ref_points = [(1, [1])],
                      ref_deleted = [], ref_ef = 50\<rparr>,
             id_to_label = [''a'' \<mapsto> 1], label_to_id = ['''', ''a''], path = ''p'', dimension = 1,
             max_elements = 2, next_label = 2, modified = False, precision = 1\<rparr>
   \<and> (replay_spec ref_ops 1 1 ['''', ''a''] 2 [0, 0, 0, 0x3C]
          \<lparr>ref_dim = 1, ref_capacity = 2, ref_points = [], ref_deleted = [], ref_ef = 10\<rparr>)
        \<lparr>ref_ef := 50\<rparr>
       = \<lparr>ref_dim = 1, ref_capacity = 2, ref_points = [(1, [1])], ref_deleted = [], ref_ef = 50\<rparr>
   \<and> hnsw_open ref_ops fs_quant_one (Some ''p'') 2 =
       Some \<lparr>hnsw = \<lparr>ref_dim = 2, ref_capacity = 1, ref_points = [(0, [1, - 1])],
                      ref_deleted = [], ref_ef = 50\<rparr>,
             id_to_label = [''a'' \<mapsto> 0], label_to_id = [''a''], path = ''p'', dimension = 2,
             max_elements = 1, next_label = 1, modified = False, precision = 2\<rparr>
   \<and> (replay_spec ref_ops 2 2 [''a''] 1 [0x00, 0x00, 0x00, 0x3F, 0x02, 0xFE]
          \<lparr>ref_dim = 2, ref_capacity = 1, ref_points = [], ref_deleted = [], ref_ef = 10\<rparr>)
        \<lparr>ref_ef := 50\<rparr>
       = \<lparr>ref_dim = 2, ref_capacity = 1, ref_points = [(0, [1, - 1])], ref_deleted = [],
          ref_ef = 50\<rparr>"
proof -
  have a: "hnsw_open ref_ops Map.empty (Some ''p'') 1 = None"
    using hnsw_open_amended [where fs = Map.empty and p = "''p''" and ops = ref_ops and d = 1,
        THEN conjunct1]
    by simp
  have b: "hnsw_open ref_ops fs_half_one (Some ''p'') 2 = None"
    using hnsw_open_amended [where fs = fs_half_one and p = "''p''" and ops = ref_ops and d = 2
        and prec = 1
        and mapping = "[1, 0, 0, 0,  1, 0, 0, 0, 0, 0, 0, 0,  1, 0, 0, 0, 0, 0, 0, 0,
                        0, 0, 0, 0, 0, 0, 0, 0,  1, 0, 0, 0, 0, 0, 0, 0,  0x61]",
        THEN conjunct2, THEN conjunct1]
    by (simp add: fs_half_one_def int32_of_nat_def HNSW_PRECISION_FLOAT16_def)
  have c: "hnsw_open ref_ops fs_half_cut (Some ''p'') 1 = None"
    using hnsw_open_amended [where fs = fs_half_cut and p = "''p''" and ops = ref_ops and d = 1
        and prec = 1
        and mapping = "[1, 0, 0, 0,  2, 0, 0, 0, 0, 0, 0, 0,  2, 0, 0, 0, 0, 0, 0, 0,
                        0, 0, 0, 0, 0, 0, 0, 0,  0, 0, 0, 0, 0, 0, 0, 0,
                        1, 0, 0, 0, 0, 0, 0, 0,  1, 0, 0, 0, 0, 0, 0, 0,  0x61]",
        THEN conjunct2, THEN conjunct1]
    by (simp add: fs_half_cut_def int32_of_nat_def HNSW_PRECISION_FLOAT16_def record_size_def)
  have d0: "hnsw_open ref_ops fs_full_none (Some ''p'') 1 =
       Some \<lparr>hnsw = \<lparr>ref_dim = 1, ref_capacity = 4, ref_points = [], ref_deleted = [], ref_ef = 50\<rparr>,
             id_to_label = Map.empty, label_to_id = [], path = ''p'', dimension = 1,
             max_elements = 4, next_label = 0, modified = False, precision = 0\<rparr>"
    by (rule open_full_none)
  have d1: "\<exists>graph h. fs_full_none ''p/index.bin'' = Some graph \<and> ref_load 1 graph = Some h
         \<and> ref_capacity h = 4"
    using hnsw_open_amended [where fs = fs_full_none and p = "''p''" and ops = ref_ops and d = 1,
        THEN conjunct2, THEN conjunct2, THEN mp, OF d0]
    by (simp add: HNSW_PRECISION_FLOAT32_def ref_ops_def) blast
  note e0 = open_half_tomb
  have e1: "(replay_spec ref_ops 1 1 ['''', ''a''] 2 [0, 0, 0, 0x3C]
          \<lparr>ref_dim = 1, ref_capacity = 2, ref_points = [], ref_deleted = [], ref_ef = 10\<rparr>)
        \<lparr>ref_ef := 50\<rparr>
       = \<lparr>ref_dim = 1, ref_capacity = 2, ref_points = [(1, [1])], ref_deleted = [], ref_ef = 50\<rparr>"
    using hnsw_open_amended [where fs = fs_half_tomb and p = "''p''" and ops = ref_ops and d = 1,
        THEN conjunct2, THEN conjunct2, THEN mp, OF e0]
    by (simp add: HNSW_PRECISION_FLOAT16_def HNSW_PRECISION_INT8_def fs_half_tomb_def
        int32_of_nat_def record_size_def)
      (simp add: ref_ops_def ref_create_def)
  note f0 = open_quant_one
  have f1: "(replay_spec ref_ops 2 2 [''a''] 1 [0x00, 0x00, 0x00, 0x3F, 0x02, 0xFE]
          \<lparr>ref_dim = 2, ref_capacity = 1, ref_points = [], ref_deleted = [], ref_ef = 10\<rparr>)
        \<lparr>ref_ef := 50\<rparr>
       = \<lparr>ref_dim = 2, ref_capacity = 1, ref_points = [(0, [1, - 1])], ref_deleted = [],
          ref_ef = 50\<rparr>"
    using hnsw_open_amended [where fs = fs_quant_one and p = "''p''" and ops = ref_ops and d = 2,
        THEN conjunct2, THEN conjunct2, THEN mp, OF f0]
    by (simp add: HNSW_PRECISION_FLOAT16_def HNSW_PRECISION_INT8_def fs_quant_one_def
        int32_of_nat_def record_size_def)
      (simp add: ref_ops_def ref_create_def)
  from a b c d0 d1 e0 e1 f0 f1 show ?thesis by blast
qed

text \<open>
  Claim C4 as stated fails on the capacity of the fresh library state, which is not the
  maximum of the number of slots and a default: with no slot it is 100000, with one slot
  it is 1, and no default gives both.
\<close>

theorem hnsw_open_counterexample:
  "map_option (\<lambda>i. (length (label_to_id i), max_elements i))
       (hnsw_open ref_ops fs_half_none (Some ''p'') 1) = Some (0, 100000)
   \<and> map_option (\<lambda>i. (length (label_to_id i), max_elements i))
       (hnsw_open ref_ops fs_half_one (Some ''p'') 1) = Some (1, 1)
   \<and> \<not> (\<exists>F :: nat. 100000 = max 0 F \<and> 1 = max 1 F)"
  by (simp add: open_half_none open_half_one)

end
